theory Spec2Isabelle
  imports Complex_Main
begin

section \<open>fileskadis: page ranges, region masking and the masking session\<close>

text \<open>
  A shallow embedding of \<^verbatim>\<open>core/separator.py\<close> (\<^verbatim>\<open>parse_page_range\<close>),
  \<^verbatim>\<open>core/masker.py\<close> (\<^verbatim>\<open>Region\<close>, \<^verbatim>\<open>Masker\<close>) and the masking part of
  \<^verbatim>\<open>ui/app.py\<close> (\<^verbatim>\<open>FileskadisApp\<close>).

  Python exceptions are values of the type \<open>error\<close>; a function that can raise returns
  \<open>error + 'a\<close> with \<open>Inl\<close> for the exception. All but \<open>OverflowError\<close> and
  \<open>FileError\<close> are \<^verbatim>\<open>ValueError\<close>s in the source; the constructor records which one.
  Python ints are unbounded and are modelled by \<open>int\<close>. A name cannot begin with an
  underscore here: \<^verbatim>\<open>_apply_masks\<close> is \<open>apply_masks\<close>, \<^verbatim>\<open>_images_to_pdf\<close> is
  \<open>images_to_pdf\<close>, and the fields \<^verbatim>\<open>_regions\<close>, \<^verbatim>\<open>_click_start\<close> and so on of the
  application are \<open>app_regions\<close>, \<open>app_click_start\<close> and so on.
\<close>

datatype error =
    InvalidLiteral string   \<comment> \<open>\<^verbatim>\<open>int(s)\<close>: invalid literal for int() with base 10\<close>
  | DigitLimitExceeded      \<comment> \<open>\<^verbatim>\<open>int(s)\<close>: exceeds the limit (4300 digits) for integer string conversion\<close>
  | PageOutOfRange int      \<comment> \<open>\<^verbatim>\<open>ValueError(f"Page {page_num} out of range")\<close>\<close>
  | NoImagesToConvert       \<comment> \<open>\<^verbatim>\<open>ValueError("No images to convert")\<close>\<close>
  | ImagesDoNotMatch        \<comment> \<open>Pillow, \<^verbatim>\<open>paste\<close>: images do not match\<close>
  | BadCoordinates          \<comment> \<open>Pillow, \<^verbatim>\<open>crop\<close>/\<^verbatim>\<open>rectangle\<close>: right below left, or lower above upper\<close>
  | OverflowError           \<comment> \<open>int too large to convert to float\<close>
  | FileError               \<comment> \<open>whatever \<^verbatim>\<open>validate_pdf\<close> or the PDF decoder raises\<close>

subsection \<open>Python strings\<close>

text \<open>
  A Python \<^verbatim>\<open>str\<close> is modelled as a \<open>string\<close>: a list of characters with code points
  below 256. On that range \<^verbatim>\<open>str.isspace\<close>, which \<^verbatim>\<open>str.strip()\<close>, \<^verbatim>\<open>int()\<close> and the
  regular expression class \<^verbatim>\<open>\s\<close> all use, holds of the code points 9 to 13, 28 to 32,
  133 and 160, and the only decimal digits (\<^verbatim>\<open>\d\<close>) are \<^verbatim>\<open>0\<close> to \<^verbatim>\<open>9\<close>.
\<close>

definition py_isspace :: "char \<Rightarrow> bool" where
  "py_isspace c =
     (let n = (of_char c :: nat)
      in (9 \<le> n \<and> n \<le> 13) \<or> (28 \<le> n \<and> n \<le> 32) \<or> n = 133 \<or> n = 160)"

definition py_isdigit :: "char \<Rightarrow> bool" where
  "py_isdigit c = (let n = (of_char c :: nat) in 48 \<le> n \<and> n \<le> 57)"

definition strip :: "string \<Rightarrow> string" where
  "strip s = rev (dropWhile py_isspace (rev (dropWhile py_isspace s)))"

text \<open>\<^verbatim>\<open>s.split(",")\<close>: the pieces between the commas, empty pieces included.\<close>

fun split_comma :: "string \<Rightarrow> string list" where
  "split_comma [] = [[]]"
| "split_comma (c # cs) =
     (if c = CHR '','' then [] # split_comma cs
      else (case split_comma cs of
              [] \<Rightarrow> [[c]]
            | p # ps \<Rightarrow> (c # p) # ps))"

text \<open>The value of a run of decimal digits, most significant first.\<close>

definition digit_val :: "char \<Rightarrow> int" where
  "digit_val c = int (of_char c) - 48"

definition digits_value :: "string \<Rightarrow> int" where
  "digits_value ds = foldl (\<lambda>acc c. 10 * acc + digit_val c) 0 ds"

text \<open>
  The body of a base-10 literal accepted by \<^verbatim>\<open>int()\<close>: digits, with single underscores
  allowed between two digits.
\<close>

fun int_body :: "string \<Rightarrow> bool" where
  "int_body [] = False"
| "int_body [c] = py_isdigit c"
| "int_body (c # d # cs) =
     (py_isdigit c \<and>
      (if d = CHR ''_'' then int_body cs else int_body (d # cs)))"

text \<open>
  CPython (3.11, and the security releases from 3.10.7 down to 3.7.14) refuses to
  convert a decimal string of more than \<^verbatim>\<open>sys.get_int_max_str_digits()\<close> digits, 4300
  unless the process is configured otherwise; the sign, the underscores and the
  surrounding whitespace do not count.
\<close>

definition int_max_str_digits :: nat where
  "int_max_str_digits = 4300"

definition digit_or_underscore :: "char \<Rightarrow> bool" where
  "digit_or_underscore c = (py_isdigit c \<or> c = CHR ''_'')"

text \<open>
  \<^verbatim>\<open>int(s)\<close> on a string: surrounding whitespace is stripped and one sign is allowed.
  The run of digits and underscores that follows must be a literal body; then its
  number of digits is held against the limit; then nothing may follow the run. Each
  failure is a \<^verbatim>\<open>ValueError\<close>.
\<close>

definition py_int :: "string \<Rightarrow> error + int" where
  "py_int s =
     (let t = strip s;
          (sign, body) =
             (case t of
                [] \<Rightarrow> (1, [])
              | c # cs \<Rightarrow>
                  if c = CHR ''+'' then (1, cs)
                  else if c = CHR ''-'' then (- 1, cs)
                  else (1, t));
          run = takeWhile digit_or_underscore body;
          rest = dropWhile digit_or_underscore body
      in if \<not> int_body run then Inl (InvalidLiteral s)
         else if length (filter py_isdigit run) > int_max_str_digits then Inl DigitLimitExceeded
         else if rest \<noteq> [] then Inl (InvalidLiteral s)
         else Inr (sign * digits_value (filter (\<lambda>c. c \<noteq> CHR ''_'') run)))"

text \<open>
  \<^verbatim>\<open>re.match(r"(\d+)\s*-\s*(\d+)", part)\<close>: the match is anchored at the start of the
  string only. Digits, whitespace and the hyphen are disjoint classes, so the greedy
  match is the only candidate: the longest run of digits, any whitespace, a hyphen, any
  whitespace, the longest run of digits. The result is the pair of groups.
\<close>

definition re_match_range :: "string \<Rightarrow> (string \<times> string) option" where
  "re_match_range part =
     (let g1 = takeWhile py_isdigit part;
          r1 = dropWhile py_isspace (dropWhile py_isdigit part)
      in if g1 = [] then None
         else (case r1 of
                 [] \<Rightarrow> None
               | c # r2 \<Rightarrow>
                   if c \<noteq> CHR ''-'' then None
                   else (let g2 = takeWhile py_isdigit (dropWhile py_isspace r2)
                         in if g2 = [] then None else Some (g1, g2))))"

subsection \<open>\<^verbatim>\<open>parse_page_range\<close>\<close>

text \<open>\<^verbatim>\<open>parts = [p.strip() for p in range_str.split(",") if p.strip()]\<close>\<close>

definition parts_of :: "string \<Rightarrow> string list" where
  "parts_of range_str = map strip (filter (\<lambda>p. strip p \<noteq> []) (split_comma range_str))"

text \<open>
  \<^verbatim>\<open>for i in range(start, end + 1): if 1 <= i <= max_pages: pages.add(i - 1)\<close>
\<close>

definition add_range :: "int \<Rightarrow> int \<Rightarrow> int \<Rightarrow> int set \<Rightarrow> int set" where
  "add_range max_pages start end' pages =
     fold (\<lambda>i ps. if 1 \<le> i \<and> i \<le> max_pages then insert (i - 1) ps else ps)
       [start..end'] pages"

text \<open>
  One round of the loop over the parts. In the range branch the two \<^verbatim>\<open>int()\<close> calls
  are outside any \<^verbatim>\<open>try\<close>, so an error there leaves the function; in the other branch
  \<^verbatim>\<open>ValueError\<close> is caught and the part is skipped.
\<close>

definition parse_part :: "int \<Rightarrow> string \<Rightarrow> int set \<Rightarrow> error + int set" where
  "parse_part max_pages part pages =
     (if CHR ''-'' \<in> set part then
        (case re_match_range part of
           None \<Rightarrow> Inr pages
         | Some (g1, g2) \<Rightarrow>
             (case py_int g1 of
                Inl e \<Rightarrow> Inl e
              | Inr start \<Rightarrow>
                  (case py_int g2 of
                     Inl e \<Rightarrow> Inl e
                   | Inr end' \<Rightarrow> Inr (add_range max_pages start end' pages))))
      else
        (case py_int part of
           Inl e \<Rightarrow> Inr pages
         | Inr page \<Rightarrow>
             Inr (if 1 \<le> page \<and> page \<le> max_pages then insert (page - 1) pages else pages)))"

fun parse_parts :: "int \<Rightarrow> string list \<Rightarrow> int set \<Rightarrow> error + int set" where
  "parse_parts max_pages [] pages = Inr pages"
| "parse_parts max_pages (part # rest) pages =
     (case parse_part max_pages part pages of
        Inl e \<Rightarrow> Inl e
      | Inr pages' \<Rightarrow> parse_parts max_pages rest pages')"

definition parse_page_range :: "string \<Rightarrow> int \<Rightarrow> error + int list" where
  "parse_page_range range_str max_pages =
     (case parse_parts max_pages (parts_of range_str) {} of
        Inl e \<Rightarrow> Inl e
      | Inr pages \<Rightarrow> Inr (sorted_list_of_set pages))"

text \<open>
  The 1-indexed page numbers a part stands for, used to state what the parser returns:
  the numbers from start to end for a part the pattern matches, the number itself for
  an integer literal, none for any other part.
\<close>

definition part_numbers :: "string \<Rightarrow> int set" where
  "part_numbers part =
     (if CHR ''-'' \<in> set part then
        (case re_match_range part of
           None \<Rightarrow> {}
         | Some (g1, g2) \<Rightarrow> {digits_value g1 .. digits_value g2})
      else
        (case py_int part of
           Inl e \<Rightarrow> {}
         | Inr page \<Rightarrow> {page}))"

text \<open>
  The parts whose range, if the pattern matches one, has a start and an end within the
  digit limit of \<^verbatim>\<open>int()\<close>.
\<close>

definition short_groups :: "string \<Rightarrow> bool" where
  "short_groups part =
     (if CHR ''-'' \<in> set part then
        (case re_match_range part of
           None \<Rightarrow> True
         | Some (g1, g2) \<Rightarrow>
             length g1 \<le> int_max_str_digits \<and> length g2 \<le> int_max_str_digits)
      else True)"

text \<open>A run of 4300 zeros followed by a one: the number 1, written with 4301 digits.\<close>

definition long_one :: string where
  "long_one = replicate 4300 CHR ''0'' @ ''1''"

subsection \<open>Regions and rasters\<close>

text \<open>
  \<^verbatim>\<open>Region\<close> is a dataclass of four Python ints; \<^verbatim>\<open>box\<close> is its property
  \<^verbatim>\<open>(x, y, x + width, y + height)\<close>.
\<close>

datatype region = Region (reg_x: int) (reg_y: int) (reg_width: int) (reg_height: int)

type_synonym box = "int \<times> int \<times> int \<times> int"

definition box :: "region \<Rightarrow> box" where
  "box r = (reg_x r, reg_y r, reg_x r + reg_width r, reg_y r + reg_height r)"

text \<open>
  A Pillow image is its size, its mode and its pixels. The modes are the two a page
  raster has, greyscale (\<^verbatim>\<open>"L"\<close>, one band) and \<^verbatim>\<open>"RGB"\<close> (three bands); a pixel is the
  list of its band values. Only the pixels at \<open>0 \<le> x < width\<close>, \<open>0 \<le> y < height\<close>
  belong to the image, and no operation below writes anywhere else.
\<close>

datatype mode = ModeL | ModeRGB

type_synonym pixel = "nat list"

record image =
  im_width :: nat
  im_height :: nat
  im_mode :: mode
  im_pixels :: "int \<times> int \<Rightarrow> pixel"

definition in_image :: "image \<Rightarrow> int \<times> int \<Rightarrow> bool" where
  "in_image im p =
     (0 \<le> fst p \<and> fst p < int (im_width im) \<and> 0 \<le> snd p \<and> snd p < int (im_height im))"

text \<open>
  \<^verbatim>\<open>ImageColor.getcolor(color, mode)\<close> for the two colour names the masker uses: black is
  0 in every band and white is 255 in every band.
\<close>

definition getcolor :: "string \<Rightarrow> mode \<Rightarrow> pixel" where
  "getcolor color md =
     (let v = (if color = ''black'' then 0 else 255)
      in case md of ModeL \<Rightarrow> [v] | ModeRGB \<Rightarrow> [v, v, v])"

definition zero_pixel :: "mode \<Rightarrow> pixel" where
  "zero_pixel md = (case md of ModeL \<Rightarrow> [0] | ModeRGB \<Rightarrow> [0, 0, 0])"

text \<open>
  \<^verbatim>\<open>Image.crop(box)\<close>: a new image of the size of the box, holding the pixels of the box;
  what lies outside the source reads as zero. Pillow raises \<^verbatim>\<open>ValueError\<close> when right is
  less than left or lower is less than upper.
\<close>

definition crop :: "image \<Rightarrow> box \<Rightarrow> error + image" where
  "crop im b =
     (case b of (l, t, r, lo) \<Rightarrow>
        if r < l \<or> lo < t then Inl BadCoordinates
        else Inr \<lparr>im_width = nat (r - l), im_height = nat (lo - t), im_mode = im_mode im,
                  im_pixels = (\<lambda>(px, py).
                     if in_image im (px + l, py + t) then im_pixels im (px + l, py + t)
                     else zero_pixel (im_mode im))\<rparr>)"

text \<open>
  \<^verbatim>\<open>Image.filter(ImageFilter.GaussianBlur(radius))\<close> returns an image of the same size and
  mode. The blur itself is Pillow's and works in floating point; it is a parameter
  \<open>gauss\<close> of the model, from the radius and the image to the new pixels.
\<close>

type_synonym blur = "int \<Rightarrow> image \<Rightarrow> int \<times> int \<Rightarrow> pixel"

definition filter_blur :: "blur \<Rightarrow> int \<Rightarrow> image \<Rightarrow> image" where
  "filter_blur gauss radius im = im\<lparr>im_pixels := gauss radius im\<rparr>"

text \<open>
  \<^verbatim>\<open>Image.paste(src, box)\<close> with a 4-tuple: the source must have the size of the box
  (\<^verbatim>\<open>ValueError\<close>: images do not match), and replaces the pixels of the box, right and
  lower edge excluded.
\<close>

definition paste :: "image \<Rightarrow> image \<Rightarrow> box \<Rightarrow> error + image" where
  "paste im src b =
     (case b of (l, t, r, lo) \<Rightarrow>
        if int (im_width src) \<noteq> r - l \<or> int (im_height src) \<noteq> lo - t then Inl ImagesDoNotMatch
        else Inr (im\<lparr>im_pixels := (\<lambda>(px, py).
                     if l \<le> px \<and> px < r \<and> t \<le> py \<and> py < lo \<and> in_image im (px, py)
                     then im_pixels src (px - l, py - t)
                     else im_pixels im (px, py))\<rparr>))"

text \<open>
  \<^verbatim>\<open>ImageDraw.Draw(im).rectangle(box, fill=color)\<close>: Pillow's bounding box is inclusive of
  both end points, so the columns \<open>x0\<close> to \<open>x1\<close> and the rows \<open>y0\<close> to \<open>y1\<close> are
  filled, clipped to the image. Pillow raises \<^verbatim>\<open>ValueError\<close> when \<open>x1 < x0\<close> or
  \<open>y1 < y0\<close>.
\<close>

definition draw_rectangle :: "image \<Rightarrow> box \<Rightarrow> string \<Rightarrow> error + image" where
  "draw_rectangle im b color =
     (case b of (x0, y0, x1, y1) \<Rightarrow>
        if x1 < x0 \<or> y1 < y0 then Inl BadCoordinates
        else Inr (im\<lparr>im_pixels := (\<lambda>(px, py).
                     if x0 \<le> px \<and> px \<le> x1 \<and> y0 \<le> py \<and> py \<le> y1 \<and> in_image im (px, py)
                     then getcolor color (im_mode im)
                     else im_pixels im (px, py))\<rparr>))"

subsection \<open>\<^verbatim>\<open>Masker._apply_masks\<close>\<close>

record masker =
  render_scale :: real
  blur_radius :: int

text \<open>
  Images are objects: \<^verbatim>\<open>paste\<close> and \<^verbatim>\<open>rectangle\<close> change the image they are called on.
  The heap is the list of the image objects alive, a reference is an index into it, and
  \<^verbatim>\<open>img.copy()\<close> allocates a new object. The crop and its blurred copy are fresh
  objects nothing else refers to, so they are values.
\<close>

type_synonym heap = "image list"

definition copy :: "heap \<Rightarrow> nat \<Rightarrow> heap \<times> nat" where
  "copy h r = (h @ [h ! r], length h)"

text \<open>Lines 129 to 135: the box of the region, clamped to the input image.\<close>

definition clamp_box :: "image \<Rightarrow> region \<Rightarrow> box" where
  "clamp_box img region =
     (case box region of (b0, b1, b2, b3) \<Rightarrow>
        (max 0 b0, max 0 b1, min (int (im_width img)) b2, min (int (im_height img)) b3))"

text \<open>Line 137: \<^verbatim>\<open>box[2] <= box[0] or box[3] <= box[1]\<close>.\<close>

definition degenerate :: "image \<Rightarrow> region \<Rightarrow> bool" where
  "degenerate img region =
     (case clamp_box img region of (b0, b1, b2, b3) \<Rightarrow> b2 \<le> b0 \<or> b3 \<le> b1)"

text \<open>
  One round of the loop, as the new content of \<^verbatim>\<open>result\<close>: \<open>img\<close> is the input
  image, read for its size only, and \<open>res\<close> is the content of \<^verbatim>\<open>result\<close> so far.
\<close>

definition mask_region ::
  "blur \<Rightarrow> masker \<Rightarrow> image \<Rightarrow> image \<Rightarrow> region \<Rightarrow> string \<Rightarrow> error + image" where
  "mask_region gauss m img res region mask_type =
     (let b = clamp_box img region
      in if degenerate img region then Inr res
         else if mask_type = ''blur'' then
           (case crop res b of
              Inl e \<Rightarrow> Inl e
            | Inr cropped \<Rightarrow> paste res (filter_blur gauss (blur_radius m) cropped) b)
         else
           (let color = (if mask_type = ''black'' then ''black'' else ''white'')
            in draw_rectangle res b color))"

fun mask_loop ::
  "blur \<Rightarrow> masker \<Rightarrow> heap \<Rightarrow> nat \<Rightarrow> nat \<Rightarrow> region list \<Rightarrow> string \<Rightarrow> error + heap" where
  "mask_loop gauss m h img result [] mask_type = Inr h"
| "mask_loop gauss m h img result (region # rest) mask_type =
     (case mask_region gauss m (h ! img) (h ! result) region mask_type of
        Inl e \<Rightarrow> Inl e
      | Inr res' \<Rightarrow> mask_loop gauss m (h[result := res']) img result rest mask_type)"

definition apply_masks ::
  "blur \<Rightarrow> masker \<Rightarrow> heap \<Rightarrow> nat \<Rightarrow> region list \<Rightarrow> string \<Rightarrow> error + heap \<times> nat" where
  "apply_masks gauss m h img regions mask_type =
     (case copy h img of (h1, result) \<Rightarrow>
        (case mask_loop gauss m h1 img result regions mask_type of
           Inl e \<Rightarrow> Inl e
         | Inr h2 \<Rightarrow> Inr (h2, result)))"

text \<open>
  A caller that holds an image of its own and keeps only the result sees the method as
  a function from image to image: the call on a heap of that one image.
\<close>

definition apply_masks_img ::
  "blur \<Rightarrow> masker \<Rightarrow> image \<Rightarrow> region list \<Rightarrow> string \<Rightarrow> error + image" where
  "apply_masks_img gauss m img regions mask_type =
     (case apply_masks gauss m [img] 0 regions mask_type of
        Inl e \<Rightarrow> Inl e
      | Inr (h, result) \<Rightarrow> Inr (h ! result))"

subsection \<open>Documents and \<^verbatim>\<open>Masker.redact\<close>\<close>

text \<open>
  An open PDF is the list of its pages, and a page is what the renderer makes of it at
  each scale (\<^verbatim>\<open>pdf[i].render(scale=s).to_pil()\<close>); rendering is the decoder's business
  and is taken as given. \<^verbatim>\<open>validate_pdf(path)\<close> followed by \<^verbatim>\<open>PdfDocument(path)\<close> is a
  lookup in the file system, which yields the document or the error raised.
\<close>

type_synonym page = "real \<Rightarrow> image"

type_synonym document = "page list"

type_synonym filesystem = "string \<Rightarrow> error + document"

definition render :: "page \<Rightarrow> real \<Rightarrow> image" where
  "render pg scale = pg scale"

text \<open>
  The loop of lines 78 to 88 over \<^verbatim>\<open>range(page_count)\<close>, with \<^verbatim>\<open>page_images\<close> as the
  accumulator; \<open>page_regions\<close> is the dictionary from page numbers to region lists.
\<close>

fun redact_loop ::
  "blur \<Rightarrow> masker \<Rightarrow> document \<Rightarrow> (int \<rightharpoonup> region list) \<Rightarrow> string \<Rightarrow> nat list \<Rightarrow>
     image list \<Rightarrow> error + image list" where
  "redact_loop gauss m pdf page_regions mask_type [] page_images = Inr page_images"
| "redact_loop gauss m pdf page_regions mask_type (page_idx # rest) page_images =
     (let page_num = int page_idx + 1;
          img = render (pdf ! page_idx) (render_scale m)
      in case page_regions page_num of
           None \<Rightarrow>
             redact_loop gauss m pdf page_regions mask_type rest (page_images @ [img])
         | Some regions \<Rightarrow>
             (case apply_masks_img gauss m img regions mask_type of
                Inl e \<Rightarrow> Inl e
              | Inr img' \<Rightarrow>
                  redact_loop gauss m pdf page_regions mask_type rest (page_images @ [img'])))"

definition redact_pages ::
  "blur \<Rightarrow> masker \<Rightarrow> document \<Rightarrow> (int \<rightharpoonup> region list) \<Rightarrow> string \<Rightarrow> error + image list" where
  "redact_pages gauss m pdf page_regions mask_type =
     redact_loop gauss m pdf page_regions mask_type [0..<length pdf] []"

text \<open>\<^verbatim>\<open>img.convert("RGB")\<close> of a greyscale image repeats the grey value in the three bands.\<close>

definition convert_rgb :: "image \<Rightarrow> image" where
  "convert_rgb im =
     im\<lparr>im_mode := ModeRGB,
        im_pixels := (\<lambda>p. case im_pixels im p of [v] \<Rightarrow> [v, v, v] | px \<Rightarrow> px)\<rparr>"

text \<open>
  \<^verbatim>\<open>_images_to_pdf\<close>: the document written is the sequence of rasters handed to the
  encoder, the first image followed by \<^verbatim>\<open>append_images\<close>.
\<close>

definition images_to_pdf :: "image list \<Rightarrow> error + image list" where
  "images_to_pdf images =
     (if images = [] then Inl NoImagesToConvert
      else (let rgb_images = map (\<lambda>img. if im_mode img \<noteq> ModeRGB then convert_rgb img else img) images
            in Inr (hd rgb_images # (if length rgb_images > 1 then tl rgb_images else []))))"

definition redact ::
  "blur \<Rightarrow> masker \<Rightarrow> filesystem \<Rightarrow> string \<Rightarrow> (int \<rightharpoonup> region list) \<Rightarrow> string \<Rightarrow>
     error + image list" where
  "redact gauss m fs pdf_path page_regions mask_type =
     (case fs pdf_path of
        Inl e \<Rightarrow> Inl e
      | Inr pdf \<Rightarrow>
          (case redact_pages gauss m pdf page_regions mask_type of
             Inl e \<Rightarrow> Inl e
           | Inr page_images \<Rightarrow> images_to_pdf page_images))"

subsection \<open>\<^verbatim>\<open>Masker.preview_page\<close> at the scale 1.0\<close>

text \<open>
  \<^verbatim>\<open>preview_page\<close> is modelled at its default \<^verbatim>\<open>scale=1.0\<close>, the only scale the
  application passes. A product with the double 1.0 is exact, so the page is rendered
  at \<^verbatim>\<open>render_scale\<close>, and \<^verbatim>\<open>int(v * scale)\<close> for an int \<open>v\<close> is \<open>v\<close> converted to a
  double and back. Python rounds an int to the nearest double, ties to the even
  mantissa of 53 bits, and raises \<^verbatim>\<open>OverflowError\<close> beyond the largest double.
\<close>

fun bit_length :: "nat \<Rightarrow> nat" where
  "bit_length n = (if n = 0 then 0 else Suc (bit_length (n div 2)))"

declare bit_length.simps [simp del]

definition float_of_int :: "int \<Rightarrow> error + int" where
  "float_of_int v =
     (let a = nat \<bar>v\<bar>; n = bit_length a
      in if n \<le> 53 then Inr v
         else (let e = n - 53;
                   q = a div 2 ^ e;
                   r = a mod 2 ^ e;
                   half = 2 ^ (e - 1);
                   q' = (if r > half \<or> (r = half \<and> odd q) then q + 1 else q);
                   d = q' * 2 ^ e
               in if d \<ge> 2 ^ 1024 then Inl OverflowError else Inr (sgn v * int d)))"

text \<open>\<^verbatim>\<open>Region(int(r.x * scale), int(r.y * scale), int(r.width * scale), int(r.height * scale))\<close>\<close>

definition scale_region :: "region \<Rightarrow> error + region" where
  "scale_region r =
     (case float_of_int (reg_x r) of Inl e \<Rightarrow> Inl e | Inr sx \<Rightarrow>
      case float_of_int (reg_y r) of Inl e \<Rightarrow> Inl e | Inr sy \<Rightarrow>
      case float_of_int (reg_width r) of Inl e \<Rightarrow> Inl e | Inr sw \<Rightarrow>
      case float_of_int (reg_height r) of Inl e \<Rightarrow> Inl e | Inr sh \<Rightarrow>
        Inr (Region sx sy sw sh))"

fun scale_regions :: "region list \<Rightarrow> error + region list" where
  "scale_regions [] = Inr []"
| "scale_regions (r # rs) =
     (case scale_region r of
        Inl e \<Rightarrow> Inl e
      | Inr r' \<Rightarrow> (case scale_regions rs of Inl e \<Rightarrow> Inl e | Inr rs' \<Rightarrow> Inr (r' # rs')))"

text \<open>\<open>regions\<close> is \<^verbatim>\<open>None\<close> or a list; \<^verbatim>\<open>if regions:\<close> fails for both \<^verbatim>\<open>None\<close> and \<^verbatim>\<open>[]\<close>.\<close>

definition preview_page ::
  "blur \<Rightarrow> masker \<Rightarrow> filesystem \<Rightarrow> string \<Rightarrow> int \<Rightarrow> region list option \<Rightarrow> string \<Rightarrow>
     error + image" where
  "preview_page gauss m fs pdf_path page_num regions mask_type =
     (case fs pdf_path of
        Inl e \<Rightarrow> Inl e
      | Inr pdf \<Rightarrow>
          if page_num < 1 \<or> page_num > int (length pdf) then Inl (PageOutOfRange page_num)
          else (let img = render (pdf ! nat (page_num - 1)) (render_scale m * 1)
                in case regions of
                     None \<Rightarrow> Inr img
                   | Some [] \<Rightarrow> Inr img
                   | Some (r # rs) \<Rightarrow>
                       (case scale_regions (r # rs) of
                          Inl e \<Rightarrow> Inl e
                        | Inr scaled_regions \<Rightarrow>
                            apply_masks_img gauss m img scaled_regions mask_type)))"

subsection \<open>The masking session of \<^verbatim>\<open>FileskadisApp\<close>\<close>

text \<open>
  The fields of the application the masking tab uses. The handlers are modelled by
  their effect on these fields; the preview image and the texts a handler returns to
  the user interface are computed from the new state and do not feed back into it.
\<close>

record app =
  app_current_pdf :: "string option"
  app_current_page :: int
  app_regions :: "region list"
  app_base_image :: "image option"
  app_click_start :: "(int \<times> int) option"

text \<open>\<^verbatim>\<open>not pdf_file\<close>: the argument is \<^verbatim>\<open>None\<close> or the empty string.\<close>

definition no_file :: "string option \<Rightarrow> bool" where
  "no_file pdf_file = (case pdf_file of None \<Rightarrow> True | Some path \<Rightarrow> path = [])"

text \<open>\<^verbatim>\<open>handle_image_click\<close>, with \<open>evt\<close> the pair \<^verbatim>\<open>(int(evt.index[0]), int(evt.index[1]))\<close>.\<close>

definition handle_image_click :: "app \<Rightarrow> string option \<Rightarrow> string \<Rightarrow> int \<times> int \<Rightarrow> app" where
  "handle_image_click a pdf_file mask_type evt =
     (if no_file pdf_file \<or> app_base_image a = None then a
      else (case evt of (x, y) \<Rightarrow>
        (case app_click_start a of
           None \<Rightarrow> a\<lparr>app_click_start := Some (x, y)\<rparr>
         | Some (x1, y1) \<Rightarrow>
             (let x2 = x; y2 = y;
                  left = min x1 x2;
                  top = min y1 y2;
                  width = \<bar>x2 - x1\<bar>;
                  height = \<bar>y2 - y1\<bar>;
                  a' = (if width > 5 \<and> height > 5
                        then a\<lparr>app_regions := app_regions a @ [Region left top width height]\<rparr>
                        else a)
              in a'\<lparr>app_click_start := None\<rparr>))))"

text \<open>\<^verbatim>\<open>Separator.get_page_count\<close>\<close>

definition get_page_count :: "filesystem \<Rightarrow> string \<Rightarrow> error + nat" where
  "get_page_count fs pdf_path =
     (case fs pdf_path of Inl e \<Rightarrow> Inl e | Inr pdf \<Rightarrow> Inr (length pdf))"

text \<open>
  What \<^verbatim>\<open>change_mask_page\<close> returns: \<^verbatim>\<open>(None, "No PDF", "")\<close>, or
  \<^verbatim>\<open>(None, f"Error: {e}", "")\<close> from the \<^verbatim>\<open>except Exception\<close> clause, or the image with
  the page number and the page count of its status line.
\<close>

datatype page_view = NoPdf | ErrorMessage error | PageShown image int nat

text \<open>The application's masker is \<^verbatim>\<open>Masker()\<close>, with the default settings.\<close>

definition default_masker :: masker where
  "default_masker = \<lparr>render_scale = 2, blur_radius = 30\<rparr>"

definition change_mask_page ::
  "blur \<Rightarrow> filesystem \<Rightarrow> app \<Rightarrow> string option \<Rightarrow> int \<Rightarrow> app \<times> page_view" where
  "change_mask_page gauss fs a pdf_file page_num =
     (case pdf_file of
        None \<Rightarrow> (a, NoPdf)
      | Some pdf_path \<Rightarrow>
          if pdf_path = [] then (a, NoPdf)
          else (let a1 = a\<lparr>app_current_page := page_num, app_regions := [],
                          app_click_start := None\<rparr>
                in case get_page_count fs pdf_path of
                     Inl e \<Rightarrow> (a1, ErrorMessage e)
                   | Inr count \<Rightarrow>
                       (case preview_page gauss default_masker fs pdf_path
                               (app_current_page a1) None ''blur'' of
                          Inl e \<Rightarrow> (a1, ErrorMessage e)
                        | Inr img \<Rightarrow>
                            (a1\<lparr>app_base_image := Some img\<rparr>,
                             PageShown img (app_current_page a1) count))))"

subsection \<open>Vocabulary of the statements and sample data\<close>

text \<open>
  The pixels a fill of the box covers, both edges included; the pixels strictly inside
  a box; the pixels strictly outside it.
\<close>

definition inside_incl :: "box \<Rightarrow> int \<times> int \<Rightarrow> bool" where
  "inside_incl b p =
     (case b of (l, t, r, lo) \<Rightarrow> l \<le> fst p \<and> fst p \<le> r \<and> t \<le> snd p \<and> snd p \<le> lo)"

definition strictly_inside :: "box \<Rightarrow> int \<times> int \<Rightarrow> bool" where
  "strictly_inside b p =
     (case b of (l, t, r, lo) \<Rightarrow> l < fst p \<and> fst p < r \<and> t < snd p \<and> snd p < lo)"

definition strictly_outside :: "box \<Rightarrow> int \<times> int \<Rightarrow> bool" where
  "strictly_outside b p =
     (case b of (l, t, r, lo) \<Rightarrow> fst p < l \<or> r < fst p \<or> snd p < t \<or> lo < snd p)"

text \<open>A white RGB raster of 8 by 6 pixels, and a blur that leaves the pixels alone.\<close>

definition white_image :: image where
  "white_image =
     \<lparr>im_width = 8, im_height = 6, im_mode = ModeRGB, im_pixels = (\<lambda>p. [255, 255, 255])\<rparr>"

definition no_blur :: blur where
  "no_blur radius im = im_pixels im"

text \<open>
  A document of one white page and a document of two pages, the second one greyscale;
  a file system holding the first; a session with one region and a pending corner.
\<close>

definition sample_doc :: document where
  "sample_doc = [\<lambda>scale. white_image]"

definition two_pages :: document where
  "two_pages =
     [\<lambda>scale. white_image,
      \<lambda>scale. white_image\<lparr>im_mode := ModeL, im_pixels := (\<lambda>p. [255])\<rparr>]"

definition sample_fs :: filesystem where
  "sample_fs pdf_path = (if pdf_path = ''doc.pdf'' then Inr sample_doc else Inl FileError)"

definition sample_app :: app where
  "sample_app =
     \<lparr>app_current_pdf = Some ''doc.pdf'', app_current_page = 1,
      app_regions = [Region 10 10 40 50], app_base_image = Some white_image,
      app_click_start = Some (10, 10)\<rparr>"

text \<open>
  The regions whose four coordinates are ints a double represents exactly, whatever
  their sign: those of magnitude at most \<open>2 ^ 53\<close>. The region \<open>wide_region\<close> is not
  one of them: its \<open>x\<close> is \<open>- (2 ^ 53 + 1)\<close>.
\<close>

definition exact_coords :: "region \<Rightarrow> bool" where
  "exact_coords r =
     (\<bar>reg_x r\<bar> \<le> 2 ^ 53 \<and> \<bar>reg_y r\<bar> \<le> 2 ^ 53
      \<and> \<bar>reg_width r\<bar> \<le> 2 ^ 53 \<and> \<bar>reg_height r\<bar> \<le> 2 ^ 53)"

definition wide_region :: region where
  "wide_region = Region (- 9007199254740993) 0 9007199254740998 3"

section \<open>Properties of the page-range parser\<close>

lemma digit_not_space: "py_isdigit c \<Longrightarrow> \<not> py_isspace c"
  by (auto simp: py_isdigit_def py_isspace_def Let_def)

lemma digit_not_sign: "py_isdigit c \<Longrightarrow> c \<noteq> CHR ''+'' \<and> c \<noteq> CHR ''-'' \<and> c \<noteq> CHR ''_''"
  by (auto simp: py_isdigit_def)

lemma strip_id:
  assumes "s \<noteq> []" and "\<not> py_isspace (hd s)" and "\<not> py_isspace (last s)"
  shows "strip s = s"
proof -
  have 1: "dropWhile py_isspace s = s" using assms(1,2) by (cases s) auto
  have "rev s \<noteq> []" "\<not> py_isspace (hd (rev s))" using assms(1,3) by (simp_all add: hd_rev)
  then have 2: "dropWhile py_isspace (rev s) = rev s" by (cases "rev s") auto
  show ?thesis by (simp add: strip_def 1 2)
qed

lemma strip_digits:
  assumes "\<forall>c\<in>set ds. py_isdigit c"
  shows "strip ds = ds"
proof (cases "ds = []")
  case True
  then show ?thesis by (simp add: strip_def)
next
  case False
  then have "hd ds \<in> set ds" "last ds \<in> set ds" by simp_all
  with assms have "\<not> py_isspace (hd ds)" "\<not> py_isspace (last ds)"
    using digit_not_space by blast+
  with False show ?thesis by (rule strip_id)
qed

lemma int_body_digits: "ds \<noteq> [] \<Longrightarrow> \<forall>c\<in>set ds. py_isdigit c \<Longrightarrow> int_body ds"
  by (induction ds rule: int_body.induct) (auto simp: digit_not_sign)

lemma filter_digits: "\<forall>c\<in>set ds. py_isdigit c \<Longrightarrow> filter (\<lambda>c. c \<noteq> CHR ''_'') ds = ds"
  by (induction ds) (auto simp: digit_not_sign)

lemma py_int_digits:
  assumes "ds \<noteq> []" and "\<forall>c\<in>set ds. py_isdigit c"
  shows "py_int ds =
           (if length ds > int_max_str_digits then Inl DigitLimitExceeded
            else Inr (digits_value ds))"
proof -
  obtain c cs where ds: "ds = c # cs" using assms(1) by (cases ds) auto
  have c: "c \<noteq> CHR ''+''" "c \<noteq> CHR ''-''" using assms(2) ds digit_not_sign by auto
  have all: "\<forall>c\<in>set ds. digit_or_underscore c"
    using assms(2) by (simp add: digit_or_underscore_def)
  have s: "strip ds = c # cs" using assms(2) ds strip_digits by metis
  have run: "takeWhile digit_or_underscore (c # cs) = ds"
    and rest: "dropWhile digit_or_underscore (c # cs) = []"
    using all ds by (simp_all del: takeWhile.simps dropWhile.simps)
  have body: "int_body ds" using assms by (rule int_body_digits)
  have f1: "filter py_isdigit ds = ds" using assms(2) by simp
  have f2: "filter (\<lambda>c. c \<noteq> CHR ''_'') ds = ds" using assms(2) by (rule filter_digits)
  show ?thesis
    unfolding py_int_def s
    using c by (simp add: run rest body f1 f2 del: takeWhile.simps dropWhile.simps)
qed

lemma re_match_range_groups:
  assumes "re_match_range part = Some (g1, g2)"
  shows "g1 \<noteq> [] \<and> (\<forall>c\<in>set g1. py_isdigit c) \<and> g2 \<noteq> [] \<and> (\<forall>c\<in>set g2. py_isdigit c)"
  using assms
  by (auto simp: re_match_range_def Let_def split: if_splits list.splits dest: set_takeWhileD)

lemma add_range_eq:
  "add_range max_pages start end' pages =
     pages \<union> {i - 1 | i. start \<le> i \<and> i \<le> end' \<and> 1 \<le> i \<and> i \<le> max_pages}"
proof -
  have "fold (\<lambda>i ps. if 1 \<le> i \<and> i \<le> max_pages then insert (i - 1) ps else ps) xs pages =
        pages \<union> {i - 1 | i. i \<in> set xs \<and> 1 \<le> i \<and> i \<le> max_pages}" for xs
    by (induction xs arbitrary: pages) auto
  then show ?thesis by (simp add: add_range_def)
qed

text \<open>
  One round of the loop: a part within the digit limit adds the pages it stands for, and
  a part whose range has a start or an end beyond the limit raises.
\<close>

lemma parse_part_eq:
  "parse_part max_pages part pages =
     (if short_groups part
      then Inr (pages \<union> {i - 1 | i. i \<in> part_numbers part \<and> 1 \<le> i \<and> i \<le> max_pages})
      else Inl DigitLimitExceeded)"
proof (cases "CHR ''-'' \<in> set part")
  case True
  show ?thesis
  proof (cases "re_match_range part")
    case None
    with True show ?thesis by (simp add: parse_part_def part_numbers_def short_groups_def)
  next
    case (Some g)
    obtain g1 g2 where g: "g = (g1, g2)" by (cases g)
    from re_match_range_groups[of part g1 g2] Some g
    have "py_int g1 = (if length g1 > int_max_str_digits then Inl DigitLimitExceeded
                       else Inr (digits_value g1))"
         "py_int g2 = (if length g2 > int_max_str_digits then Inl DigitLimitExceeded
                       else Inr (digits_value g2))"
      by (simp_all add: py_int_digits)
    with True Some g show ?thesis
      by (simp add: parse_part_def part_numbers_def short_groups_def add_range_eq)
  qed
next
  case False
  then show ?thesis
    by (auto simp: parse_part_def part_numbers_def short_groups_def split: sum.splits)
qed

lemma parse_parts_eq:
  "parse_parts max_pages parts pages =
     (if \<forall>part\<in>set parts. short_groups part
      then Inr (pages \<union> {i - 1 | i. (\<exists>part\<in>set parts. i \<in> part_numbers part)
                                    \<and> 1 \<le> i \<and> i \<le> max_pages})
      else Inl DigitLimitExceeded)"
proof (induction parts arbitrary: pages)
  case Nil
  then show ?case by simp
next
  case (Cons part rest)
  show ?case
  proof (cases "short_groups part")
    case False
    then show ?thesis by (simp add: parse_part_eq)
  next
    case True
    show ?thesis
    proof (cases "\<forall>p\<in>set rest. short_groups p")
      case False
      with True show ?thesis by (auto simp: parse_part_eq Cons.IH)
    next
      case all: True
      with True show ?thesis by (simp add: parse_part_eq Cons.IH) blast
    qed
  qed
qed

lemma parse_page_range_eq:
  "parse_page_range range_str max_pages =
     (if \<forall>part\<in>set (parts_of range_str). short_groups part
      then Inr (sorted_list_of_set
             {p. 0 \<le> p \<and> p < max_pages
                 \<and> (\<exists>part\<in>set (parts_of range_str). p + 1 \<in> part_numbers part)})
      else Inl DigitLimitExceeded)"
proof -
  have "{i - 1 | i. (\<exists>part\<in>set (parts_of range_str). i \<in> part_numbers part) \<and> 1 \<le> i \<and> i \<le> max_pages}
      = {p. 0 \<le> p \<and> p < max_pages \<and> (\<exists>part\<in>set (parts_of range_str). p + 1 \<in> part_numbers part)}"
    (is "?A = ?B")
  proof
    show "?A \<subseteq> ?B" by auto
    show "?B \<subseteq> ?A"
    proof
      fix p assume "p \<in> ?B"
      then have "p = (p + 1) - 1 \<and> (\<exists>part\<in>set (parts_of range_str). p + 1 \<in> part_numbers part) \<and> 1 \<le> p + 1 \<and> p + 1 \<le> max_pages"
        by auto
      then show "p \<in> ?A" by blast
    qed
  qed
  then show ?thesis by (simp add: parse_page_range_def parse_parts_eq)
qed

lemma finite_pages: "finite {p::int. 0 \<le> p \<and> p < max_pages \<and> Q p}"
proof -
  have "{p::int. 0 \<le> p \<and> p < max_pages \<and> Q p} \<subseteq> {0..<max_pages}" by auto
  then show ?thesis using finite_subset by blast
qed

lemma parse_example_1: "parse_page_range ''1-3, 5, 7-10'' 10 = Inr [0, 1, 2, 4, 6, 7, 8, 9]"
  by code_simp

lemma parse_example_2: "parse_page_range ''1, 100'' 10 = Inr [0]"
  by code_simp

lemma parse_example_3: "parse_page_range ''1, abc, 3'' 10 = Inr [0, 2]"
  by code_simp

lemma parse_example_4: "parse_page_range '''' max_pages = Inr []"
  by (simp add: parse_page_range_def parts_of_def strip_def)

lemma parse_example_5: "parse_page_range ''1,1,1-2'' 10 = Inr [0, 1]"
  by code_simp

lemma parse_example_6: "parse_page_range ''-3, 3-1, x-y, 2 - 2'' 10 = Inr [1]"
  by code_simp

text \<open>
  What the parser returns when no range has a start or an end beyond the digit limit: a
  strictly ascending list (so without duplicates) of 0-indexed pages below
  \<open>max_pages\<close>, exactly the pages \<open>p\<close> such that some part stands for \<open>p + 1\<close>. The
  five examples of the specification evaluate as it says.
\<close>

lemma parse_page_range_ascending:
  "((\<forall>part\<in>set (parts_of range_str). short_groups part) \<longrightarrow>
      (\<exists>pages. parse_page_range range_str max_pages = Inr pages
        \<and> sorted_wrt (<) pages
        \<and> set pages = {p. 0 \<le> p \<and> p < max_pages
                          \<and> (\<exists>part\<in>set (parts_of range_str). p + 1 \<in> part_numbers part)}))
   \<and> parse_page_range ''1-3, 5, 7-10'' 10 = Inr [0, 1, 2, 4, 6, 7, 8, 9]
   \<and> parse_page_range ''1, 100'' 10 = Inr [0]
   \<and> parse_page_range ''1, abc, 3'' 10 = Inr [0, 2]
   \<and> parse_page_range '''' max_pages = Inr []
   \<and> parse_page_range ''1,1,1-2'' 10 = Inr [0, 1]"
proof (intro conjI)
  show "(\<forall>part\<in>set (parts_of range_str). short_groups part) \<longrightarrow>
      (\<exists>pages. parse_page_range range_str max_pages = Inr pages
        \<and> sorted_wrt (<) pages
        \<and> set pages = {p. 0 \<le> p \<and> p < max_pages
                          \<and> (\<exists>part\<in>set (parts_of range_str). p + 1 \<in> part_numbers part)})"
    by (simp add: parse_page_range_eq finite_pages)
qed (rule parse_example_1 parse_example_2 parse_example_3 parse_example_4 parse_example_5)+

lemma parse_trailing_1: "parse_page_range ''1-3abc'' 10 = Inr [0, 1, 2]"
  by code_simp

lemma parse_trailing_2: "parse_page_range ''1-3-5, 7 - 8 x'' 10 = Inr [0, 1, 2, 6, 7]"
  by code_simp

lemma parse_trailing_3: "parse_page_range ''3abc'' 10 = Inr []"
  by code_simp

lemma parse_trailing_4: "parse_page_range ''abc1-3'' 10 = Inr []"
  by code_simp

text \<open>
  Claim C5. The parser is to drop every malformed token, a token being one integer or
  one range \<^verbatim>\<open>start-end\<close>. The pattern of the range branch is anchored at the start of
  the part only, so a part that goes on after a range is read as that range:
  \<^verbatim>\<open>1-3abc\<close> yields the pages 0, 1 and 2, and \<^verbatim>\<open>1-3-5\<close> and \<^verbatim>\<open>7 - 8 x\<close> are read as
  \<^verbatim>\<open>1-3\<close> and \<^verbatim>\<open>7-8\<close>. The branch of the single integers does drop a part with
  text after the number (\<^verbatim>\<open>3abc\<close>), and the range branch drops text before the range
  (\<^verbatim>\<open>abc1-3\<close>).
\<close>

theorem parse_page_range_keeps_trailing_text:
  "parse_page_range ''1-3abc'' 10 = Inr [0, 1, 2]
   \<and> parse_page_range ''1-3-5, 7 - 8 x'' 10 = Inr [0, 1, 2, 6, 7]
   \<and> parse_page_range ''3abc'' 10 = Inr []
   \<and> parse_page_range ''abc1-3'' 10 = Inr []"
  by (intro conjI) (rule parse_trailing_1 parse_trailing_2 parse_trailing_3 parse_trailing_4)+

text \<open>The parts of a string of digits, and of digits, a hyphen and digits.\<close>

lemma split_comma_none: "CHR '','' \<notin> set s \<Longrightarrow> split_comma s = [s]"
  by (induction s) auto

lemma long_one_digits: "long_one \<noteq> []" "\<forall>c\<in>set long_one. py_isdigit c"
  "length long_one = 4301"
  by (auto simp: long_one_def py_isdigit_def)

lemma parts_of_single:
  assumes "s \<noteq> []" and "CHR '','' \<notin> set s"
      and "\<not> py_isspace (hd s)" and "\<not> py_isspace (last s)"
  shows "parts_of s = [s]"
  using assms by (simp add: parts_of_def split_comma_none strip_id)

lemma re_match_range_digits:
  assumes "ds \<noteq> []" and "\<forall>c\<in>set ds. py_isdigit c"
  shows "re_match_range (ds @ ''-2'') = Some (ds, ''2'')"
proof -
  have h: "\<not> py_isdigit CHR ''-''" "\<not> py_isspace CHR ''-''" "py_isdigit CHR ''2''"
          "\<not> py_isspace CHR ''2''"
    by (simp_all add: py_isdigit_def py_isspace_def)
  have t: "takeWhile py_isdigit (ds @ ''-2'') = ds"
    using assms(2) h(1) by (simp add: takeWhile_append2)
  have d: "dropWhile py_isdigit (ds @ ''-2'') = ''-2''"
    using assms(2) h(1) by (simp add: dropWhile_append2)
  show ?thesis
    unfolding re_match_range_def t d using assms(1) h by simp
qed

lemma long_range_raises:
  "parse_page_range (long_one @ ''-2'') max_pages = Inl DigitLimitExceeded"
proof -
  let ?s = "long_one @ ''-2''"
  have "hd long_one \<in> set long_one" using long_one_digits(1) by simp
  then have "\<not> py_isspace (hd long_one)"
    using long_one_digits(2) digit_not_space by blast
  then have sp: "\<not> py_isspace (hd ?s)" "\<not> py_isspace (last ?s)"
    using long_one_digits(1) by (simp_all add: py_isspace_def)
  have nc: "CHR '','' \<notin> set ?s"
    using long_one_digits(2) by (auto simp: py_isdigit_def)
  have parts: "parts_of ?s = [?s]"
    using sp nc by (intro parts_of_single) simp_all
  have "\<not> short_groups ?s"
    using long_one_digits
    by (simp add: short_groups_def re_match_range_digits int_max_str_digits_def)
  then show ?thesis by (simp add: parse_page_range_eq parts)
qed

lemma long_single_dropped:
  "parse_page_range long_one max_pages = Inr []"
proof -
  have "hd long_one \<in> set long_one" "last long_one \<in> set long_one"
    using long_one_digits(1) by simp_all
  then have sp: "\<not> py_isspace (hd long_one)" "\<not> py_isspace (last long_one)"
    using long_one_digits(2) digit_not_space by blast+
  have nc: "CHR '','' \<notin> set long_one" "CHR ''-'' \<notin> set long_one"
    using long_one_digits(2) by (auto simp: py_isdigit_def)
  have parts: "parts_of long_one = [long_one]"
    using sp nc long_one_digits(1) by (intro parts_of_single) simp_all
  have "py_int long_one = Inl DigitLimitExceeded"
    using long_one_digits by (simp add: py_int_digits int_max_str_digits_def)
  then have "part_numbers long_one = {}"
    using nc(2) by (simp add: part_numbers_def)
  moreover have "short_groups long_one" using nc(2) by (simp add: short_groups_def)
  ultimately show ?thesis by (simp add: parse_page_range_eq parts)
qed

text \<open>
  Claim C10. The parser is to return a list for every string and to raise nothing. It
  raises on a range whose start or end has more than 4300 digits: the two \<^verbatim>\<open>int()\<close>
  calls of the range branch are outside any \<^verbatim>\<open>try\<close>, and \<^verbatim>\<open>int()\<close> refuses such a
  string with a \<^verbatim>\<open>ValueError\<close>. The string of 4300 zeros followed by \<^verbatim>\<open>1-2\<close> is a
  range from page 1 to page 2 and raises. The branch of the single integers catches
  that error: the same 4301 digits alone are dropped and the result is the empty list.
\<close>

theorem parse_page_range_raises_on_long_range:
  "parse_page_range (long_one @ ''-2'') 10 = Inl DigitLimitExceeded
   \<and> parse_page_range long_one 10 = Inr []
   \<and> long_one = replicate 4300 CHR ''0'' @ ''1''"
proof (intro conjI)
  show "parse_page_range (long_one @ ''-2'') 10 = Inl DigitLimitExceeded"
    by (rule long_range_raises)
  show "parse_page_range long_one 10 = Inr []"
    by (rule long_single_dropped)
  show "long_one = replicate 4300 CHR ''0'' @ ''1''"
    by (rule long_one_def)
qed

section \<open>Properties of the masking of one raster\<close>

lemma clamp_box_nondegenerate:
  assumes "\<not> degenerate img region" and "clamp_box img region = (l, t, r, lo)"
  shows "l < r \<and> t < lo \<and> 0 \<le> l \<and> 0 \<le> t \<and> r \<le> int (im_width img) \<and> lo \<le> int (im_height img)"
  using assms by (auto simp: degenerate_def clamp_box_def split: prod.splits)

lemma mask_region_total:
  "\<exists>res'. mask_region gauss m img res region mask_type = Inr res'
      \<and> im_width res' = im_width res \<and> im_height res' = im_height res \<and> im_mode res' = im_mode res"
proof (cases "degenerate img region")
  case True
  then show ?thesis by (simp add: mask_region_def)
next
  case False
  obtain l t r lo where b: "clamp_box img region = (l, t, r, lo)"
    by (cases "clamp_box img region") auto
  from clamp_box_nondegenerate[OF False b] have lt: "l < r" "t < lo" by auto
  show ?thesis
  proof (cases "mask_type = ''blur''")
    case True
    with False b lt show ?thesis
      by (simp add: mask_region_def crop_def paste_def filter_blur_def)
  next
    case blur: False
    with False b lt show ?thesis
      by (simp add: mask_region_def draw_rectangle_def)
  qed
qed

lemma mask_region_degenerate:
  "degenerate img region \<Longrightarrow> mask_region gauss m img res region mask_type = Inr res"
  by (simp add: mask_region_def)

lemma mask_region_fill:
  assumes "mask_type \<noteq> ''blur''"
      and "mask_region gauss m img res region mask_type = Inr res'"
  shows "im_pixels res' p =
           (if \<not> degenerate img region \<and> inside_incl (clamp_box img region) p \<and> in_image res p
            then getcolor (if mask_type = ''black'' then ''black'' else ''white'') (im_mode res)
            else im_pixels res p)"
proof (cases "degenerate img region")
  case True
  with assms show ?thesis by (simp add: mask_region_def)
next
  case False
  obtain l t r lo where b: "clamp_box img region = (l, t, r, lo)"
    by (cases "clamp_box img region") auto
  from clamp_box_nondegenerate[OF False b] have lt: "l < r" "t < lo" by auto
  obtain px py where p: "p = (px, py)" by (cases p)
  from assms False b lt show ?thesis
    by (auto simp: mask_region_def draw_rectangle_def inside_incl_def p)
qed

lemma mask_loop_frame:
  assumes "img \<noteq> result" and "result < length h"
  shows "\<exists>h'. mask_loop gauss m h img result regions mask_type = Inr h'
           \<and> length h' = length h
           \<and> (\<forall>i. i \<noteq> result \<longrightarrow> h' ! i = h ! i)
           \<and> im_width (h' ! result) = im_width (h ! result)
           \<and> im_height (h' ! result) = im_height (h ! result)
           \<and> im_mode (h' ! result) = im_mode (h ! result)"
  using assms
proof (induction regions arbitrary: h)
  case Nil
  then show ?case by simp
next
  case (Cons region rest)
  obtain res' where r: "mask_region gauss m (h ! img) (h ! result) region mask_type = Inr res'"
    "im_width res' = im_width (h ! result)" "im_height res' = im_height (h ! result)"
    "im_mode res' = im_mode (h ! result)"
    using mask_region_total by blast
  have "result < length (h[result := res'])" using Cons.prems by simp
  from Cons.IH[OF Cons.prems(1) this] obtain h' where
    h': "mask_loop gauss m (h[result := res']) img result rest mask_type = Inr h'"
        "length h' = length (h[result := res'])"
        "\<forall>i. i \<noteq> result \<longrightarrow> h' ! i = h[result := res'] ! i"
        "im_width (h' ! result) = im_width (h[result := res'] ! result)"
        "im_height (h' ! result) = im_height (h[result := res'] ! result)"
        "im_mode (h' ! result) = im_mode (h[result := res'] ! result)"
    by blast
  with r Cons.prems show ?case by simp
qed

lemma mask_loop_filter:
  assumes "img \<noteq> result"
  shows "mask_loop gauss m h img result regions mask_type =
         mask_loop gauss m h img result (filter (\<lambda>region. \<not> degenerate (h ! img) region) regions) mask_type"
  using assms
proof (induction regions arbitrary: h)
  case Nil
  then show ?case by simp
next
  case (Cons region rest)
  show ?case
  proof (cases "degenerate (h ! img) region")
    case True
    then show ?thesis using Cons by (simp add: mask_region_degenerate)
  next
    case False
    obtain res' where r: "mask_region gauss m (h ! img) (h ! result) region mask_type = Inr res'"
      using mask_region_total by blast
    have "h[result := res'] ! img = h ! img" using Cons.prems by simp
    with Cons.IH[OF Cons.prems, of "h[result := res']"] False r show ?thesis by simp
  qed
qed

lemma mask_loop_fill:
  assumes "mask_type \<noteq> ''blur''" and "img \<noteq> result" and "result < length h"
      and "im_width (h ! result) = im_width (h ! img)"
      and "im_height (h ! result) = im_height (h ! img)"
      and "mask_loop gauss m h img result regions mask_type = Inr h'"
  shows "im_pixels (h' ! result) p =
           (if \<exists>region\<in>set regions. \<not> degenerate (h ! img) region
                  \<and> inside_incl (clamp_box (h ! img) region) p \<and> in_image (h ! img) p
            then getcolor (if mask_type = ''black'' then ''black'' else ''white'') (im_mode (h ! result))
            else im_pixels (h ! result) p)"
  using assms(2-)
proof (induction regions arbitrary: h)
  case Nil
  then show ?case by simp
next
  case (Cons region rest)
  obtain res' where r: "mask_region gauss m (h ! img) (h ! result) region mask_type = Inr res'"
    "im_width res' = im_width (h ! result)" "im_height res' = im_height (h ! result)"
    "im_mode res' = im_mode (h ! result)"
    using mask_region_total by blast
  let ?h1 = "h[result := res']"
  have h1: "?h1 ! img = h ! img" "?h1 ! result = res'" "result < length ?h1"
    using Cons.prems by simp_all
  have loop: "mask_loop gauss m ?h1 img result rest mask_type = Inr h'"
    using Cons.prems(5) r(1) by simp
  have same: "in_image (h ! result) p = in_image (h ! img) p"
    using Cons.prems by (simp add: in_image_def)
  have w: "im_width (?h1 ! result) = im_width (?h1 ! img)"
    and hh: "im_height (?h1 ! result) = im_height (?h1 ! img)"
    using h1 r Cons.prems by simp_all
  have IH: "im_pixels (h' ! result) p =
           (if \<exists>region\<in>set rest. \<not> degenerate (h ! img) region
                  \<and> inside_incl (clamp_box (h ! img) region) p \<and> in_image (h ! img) p
            then getcolor (if mask_type = ''black'' then ''black'' else ''white'') (im_mode (h ! result))
            else im_pixels res' p)"
    using Cons.IH[OF Cons.prems(1) h1(3) w hh loop] unfolding h1 r(4) .
  show ?case
    unfolding IH mask_region_fill[OF assms(1) r(1), of p] same by auto
qed

lemma apply_masks_frame:
  assumes "img < length h"
  shows "\<exists>h'. apply_masks gauss m h img regions mask_type = Inr (h', length h)
           \<and> length h' = Suc (length h)
           \<and> (\<forall>i<length h. h' ! i = h ! i)
           \<and> im_width (h' ! length h) = im_width (h ! img)
           \<and> im_height (h' ! length h) = im_height (h ! img)
           \<and> im_mode (h' ! length h) = im_mode (h ! img)"
proof -
  let ?h1 = "h @ [h ! img]"
  have ne: "img \<noteq> length h" and lt: "length h < length ?h1" using assms by simp_all
  from mask_loop_frame[OF ne lt, of gauss m regions mask_type] obtain h' where
    h': "mask_loop gauss m ?h1 img (length h) regions mask_type = Inr h'"
        "length h' = length ?h1"
        "\<forall>i. i \<noteq> length h \<longrightarrow> h' ! i = ?h1 ! i"
        "im_width (h' ! length h) = im_width (?h1 ! length h)"
        "im_height (h' ! length h) = im_height (?h1 ! length h)"
        "im_mode (h' ! length h) = im_mode (?h1 ! length h)"
    by blast
  have "\<forall>i<length h. h' ! i = h ! i" using h'(3) by (simp add: nth_append)
  with h' show ?thesis by (simp add: apply_masks_def copy_def)
qed

lemma apply_masks_filter:
  assumes "img < length h"
  shows "apply_masks gauss m h img regions mask_type =
         apply_masks gauss m h img (filter (\<lambda>region. \<not> degenerate (h ! img) region) regions) mask_type"
proof -
  let ?h1 = "h @ [h ! img]"
  have ne: "img \<noteq> length h" using assms by simp
  have "?h1 ! img = h ! img" using assms by (simp add: nth_append)
  with mask_loop_filter[OF ne, of gauss m ?h1 regions mask_type] show ?thesis
    by (simp add: apply_masks_def copy_def)
qed

lemma apply_masks_fill:
  assumes "img < length h" and "mask_type \<noteq> ''blur''"
      and "apply_masks gauss m h img regions mask_type = Inr (h', result)"
  shows "im_pixels (h' ! result) p =
           (if \<exists>region\<in>set regions. \<not> degenerate (h ! img) region
                  \<and> inside_incl (clamp_box (h ! img) region) p \<and> in_image (h ! img) p
            then getcolor (if mask_type = ''black'' then ''black'' else ''white'') (im_mode (h ! img))
            else im_pixels (h ! img) p)"
proof -
  let ?h1 = "h @ [h ! img]"
  have ne: "img \<noteq> length h" and lt: "length h < length ?h1" using assms by simp_all
  have img: "?h1 ! img = h ! img" and res: "?h1 ! length h = h ! img"
    using assms by (simp_all add: nth_append)
  have loop: "mask_loop gauss m ?h1 img (length h) regions mask_type = Inr h'" and r: "result = length h"
    using assms(3) by (auto simp: apply_masks_def copy_def split: sum.splits)
  have w: "im_width (?h1 ! length h) = im_width (?h1 ! img)"
    and hh: "im_height (?h1 ! length h) = im_height (?h1 ! img)"
    using img res by simp_all
  show ?thesis
    using mask_loop_fill[OF assms(2) ne lt w hh loop, of p] unfolding img res r .
qed

lemma strictly_inside_clamp:
  assumes "strictly_inside (clamp_box img region) p"
  shows "\<not> degenerate img region \<and> inside_incl (clamp_box img region) p \<and> in_image img p"
  using assms
  by (auto simp: strictly_inside_def degenerate_def inside_incl_def in_image_def clamp_box_def
           split: prod.splits)

lemma strictly_outside_not_inside:
  "strictly_outside b p \<Longrightarrow> \<not> inside_incl b p"
  by (auto simp: strictly_outside_def inside_incl_def split: prod.splits)

text \<open>
  Claim C1. Let \<open>img\<close> be an image of the heap. With the mask type \<^verbatim>\<open>"black"\<close> the call
  returns an image in which every pixel strictly inside the clamped box of a region is
  pure black (0 in every band of the image's mode), and every pixel strictly outside
  all the clamped boxes is the pixel of the input; with \<^verbatim>\<open>"white"\<close> the same holds with
  pure white (255 in every band). The right column and the lower row of a clamped box,
  which the inclusive fill of Pillow paints too, are neither strictly inside nor
  strictly outside.
\<close>

theorem apply_masks_black_white:
  assumes "img < length h"
  shows "\<exists>hb rb hw rw.
           apply_masks gauss m h img regions ''black'' = Inr (hb, rb)
         \<and> apply_masks gauss m h img regions ''white'' = Inr (hw, rw)
         \<and> (\<forall>region\<in>set regions. \<forall>p. strictly_inside (clamp_box (h ! img) region) p \<longrightarrow>
               im_pixels (hb ! rb) p = (case im_mode (h ! img) of ModeL \<Rightarrow> [0] | ModeRGB \<Rightarrow> [0, 0, 0])
             \<and> im_pixels (hw ! rw) p =
                 (case im_mode (h ! img) of ModeL \<Rightarrow> [255] | ModeRGB \<Rightarrow> [255, 255, 255]))
         \<and> (\<forall>p. (\<forall>region\<in>set regions. strictly_outside (clamp_box (h ! img) region) p) \<longrightarrow>
               im_pixels (hb ! rb) p = im_pixels (h ! img) p
             \<and> im_pixels (hw ! rw) p = im_pixels (h ! img) p)"
proof -
  obtain hb where b: "apply_masks gauss m h img regions ''black'' = Inr (hb, length h)"
    using apply_masks_frame[OF assms] by blast
  obtain hw where w: "apply_masks gauss m h img regions ''white'' = Inr (hw, length h)"
    using apply_masks_frame[OF assms] by blast
  have nb: "''black'' \<noteq> ''blur''" and nw: "''white'' \<noteq> ''blur''" by simp_all
  note pb = apply_masks_fill[OF assms nb b]
  note pw = apply_masks_fill[OF assms nw w]
  have inside: "im_pixels (hb ! length h) p = (case im_mode (h ! img) of ModeL \<Rightarrow> [0] | ModeRGB \<Rightarrow> [0, 0, 0])
             \<and> im_pixels (hw ! length h) p =
                 (case im_mode (h ! img) of ModeL \<Rightarrow> [255] | ModeRGB \<Rightarrow> [255, 255, 255])"
    if "region \<in> set regions" "strictly_inside (clamp_box (h ! img) region) p" for region p
  proof -
    from strictly_inside_clamp[OF that(2)] that(1)
    have ex: "\<exists>region\<in>set regions. \<not> degenerate (h ! img) region
                  \<and> inside_incl (clamp_box (h ! img) region) p \<and> in_image (h ! img) p"
      by blast
    show ?thesis
      unfolding pb[of p] pw[of p] using ex by (simp add: getcolor_def split: mode.splits)
  qed
  have outside: "im_pixels (hb ! length h) p = im_pixels (h ! img) p
             \<and> im_pixels (hw ! length h) p = im_pixels (h ! img) p"
    if "\<forall>region\<in>set regions. strictly_outside (clamp_box (h ! img) region) p" for p
  proof -
    from that strictly_outside_not_inside
    have ex: "\<not> (\<exists>region\<in>set regions. \<not> degenerate (h ! img) region
                  \<and> inside_incl (clamp_box (h ! img) region) p \<and> in_image (h ! img) p)"
      by blast
    from ex show ?thesis
      unfolding pb[of p] pw[of p] by (simp only: if_False simp_thms)
  qed
  from b w inside outside show ?thesis by blast
qed

text \<open>The theorem at a white raster and one region: a pixel inside, a pixel outside.\<close>

theorem apply_masks_black_white_witness:
  "\<exists>hb rb hw rw.
       apply_masks no_blur default_masker [white_image] 0 [Region 2 1 4 3] ''black'' = Inr (hb, rb)
     \<and> apply_masks no_blur default_masker [white_image] 0 [Region 2 1 4 3] ''white'' = Inr (hw, rw)
     \<and> im_pixels (hb ! rb) (3, 2) = [0, 0, 0]
     \<and> im_pixels (hw ! rw) (3, 2) = [255, 255, 255]
     \<and> im_pixels (hb ! rb) (1, 5) = [255, 255, 255]
     \<and> im_pixels (hw ! rw) (1, 5) = [255, 255, 255]"
proof -
  have len: "0 < length [white_image]" by simp
  have box: "clamp_box ([white_image] ! 0) (Region 2 1 4 3) = (2, 1, 6, 4)"
    by (simp add: clamp_box_def box_def white_image_def)
  have ins: "strictly_inside (clamp_box ([white_image] ! 0) (Region 2 1 4 3)) (3, 2)"
    unfolding box by (simp add: strictly_inside_def)
  have out: "\<forall>region\<in>set [Region 2 1 4 3]. strictly_outside (clamp_box ([white_image] ! 0) region) (1, 5)"
    using box by (simp add: strictly_outside_def)
  from apply_masks_black_white[OF len, of no_blur default_masker "[Region 2 1 4 3]"]
  obtain hb rb hw rw where
    r: "apply_masks no_blur default_masker [white_image] 0 [Region 2 1 4 3] ''black'' = Inr (hb, rb)"
       "apply_masks no_blur default_masker [white_image] 0 [Region 2 1 4 3] ''white'' = Inr (hw, rw)"
       "\<forall>region\<in>set [Region 2 1 4 3]. \<forall>p. strictly_inside (clamp_box ([white_image] ! 0) region) p \<longrightarrow>
               im_pixels (hb ! rb) p = (case im_mode ([white_image] ! 0) of ModeL \<Rightarrow> [0] | ModeRGB \<Rightarrow> [0, 0, 0])
             \<and> im_pixels (hw ! rw) p =
                 (case im_mode ([white_image] ! 0) of ModeL \<Rightarrow> [255] | ModeRGB \<Rightarrow> [255, 255, 255])"
       "\<forall>p. (\<forall>region\<in>set [Region 2 1 4 3]. strictly_outside (clamp_box ([white_image] ! 0) region) p) \<longrightarrow>
               im_pixels (hb ! rb) p = im_pixels ([white_image] ! 0) p
             \<and> im_pixels (hw ! rw) p = im_pixels ([white_image] ! 0) p"
    by blast
  from r(3) ins have "im_pixels (hb ! rb) (3, 2) = [0, 0, 0] \<and> im_pixels (hw ! rw) (3, 2) = [255, 255, 255]"
    by (simp add: white_image_def)
  moreover from r(4) out have "im_pixels (hb ! rb) (1, 5) = [255, 255, 255] \<and> im_pixels (hw ! rw) (1, 5) = [255, 255, 255]"
    by (simp add: white_image_def)
  ultimately show ?thesis using r(1,2) by blast
qed

text \<open>
  Claim C7. Let \<open>img\<close> be an image of the heap. For every blur, mask type and region
  list the call raises nothing, and it returns what it returns on the list without the
  regions whose clamped box has no positive width or no positive height; when every
  region is such a region, the result is a new image equal to the input.
\<close>

theorem apply_masks_skips_degenerate:
  assumes "img < length h"
  shows "(\<exists>h' result. apply_masks gauss m h img regions mask_type = Inr (h', result))
       \<and> apply_masks gauss m h img regions mask_type =
           apply_masks gauss m h img
             (filter (\<lambda>region. \<not> degenerate (h ! img) region) regions) mask_type
       \<and> ((\<forall>region\<in>set regions. degenerate (h ! img) region) \<longrightarrow>
             apply_masks gauss m h img regions mask_type = Inr (h @ [h ! img], length h))"
proof (intro conjI impI)
  show "\<exists>h' result. apply_masks gauss m h img regions mask_type = Inr (h', result)"
    using apply_masks_frame[OF assms] by blast
  show "apply_masks gauss m h img regions mask_type =
           apply_masks gauss m h img
             (filter (\<lambda>region. \<not> degenerate (h ! img) region) regions) mask_type"
    by (rule apply_masks_filter[OF assms])
  assume "\<forall>region\<in>set regions. degenerate (h ! img) region"
  then have "filter (\<lambda>region. \<not> degenerate (h ! img) region) regions = []"
    by (simp add: filter_empty_conv)
  with apply_masks_filter[OF assms, of gauss m regions mask_type]
  show "apply_masks gauss m h img regions mask_type = Inr (h @ [h ! img], length h)"
    by (simp add: apply_masks_def copy_def)
qed

lemma sample_degenerate:
  "degenerate white_image (Region (- 5) 0 3 3)" "degenerate white_image (Region 3 3 0 5)"
  "degenerate white_image (Region 9 9 2 2)" "\<not> degenerate white_image (Region 2 1 4 3)"
  by (simp_all add: degenerate_def clamp_box_def box_def white_image_def)

text \<open>
  The theorem at the white raster: an off-canvas region and a region of width zero
  around a proper one, and a list of two off-canvas regions.
\<close>

theorem apply_masks_skips_degenerate_witness:
  "apply_masks no_blur default_masker [white_image] 0
       [Region (- 5) 0 3 3, Region 2 1 4 3, Region 3 3 0 5] ''black'' =
   apply_masks no_blur default_masker [white_image] 0 [Region 2 1 4 3] ''black''
   \<and> apply_masks no_blur default_masker [white_image] 0
       [Region (- 5) 0 3 3, Region 9 9 2 2] ''blur'' = Inr ([white_image, white_image], 1)"
proof -
  have len: "0 < length [white_image]" by simp
  from apply_masks_skips_degenerate[OF len, of no_blur default_masker
         "[Region (- 5) 0 3 3, Region 2 1 4 3, Region 3 3 0 5]" "''black''"]
  have a: "apply_masks no_blur default_masker [white_image] 0
       [Region (- 5) 0 3 3, Region 2 1 4 3, Region 3 3 0 5] ''black'' =
   apply_masks no_blur default_masker [white_image] 0 [Region 2 1 4 3] ''black''"
    by (simp add: sample_degenerate)
  from apply_masks_skips_degenerate[OF len, of no_blur default_masker
         "[Region (- 5) 0 3 3, Region 9 9 2 2]" "''blur''"]
  have b: "apply_masks no_blur default_masker [white_image] 0
       [Region (- 5) 0 3 3, Region 9 9 2 2] ''blur'' = Inr ([white_image, white_image], 1)"
    by (simp add: sample_degenerate apply_masks_def copy_def)
  from a b show ?thesis by blast
qed

text \<open>
  Claim C9. Let \<open>img\<close> be an image of the heap. For every blur, mask type and region
  list the call returns an image of the width, the height and the mode of the input;
  the image returned is another object than the input, and the input, like every
  other image of the heap, is what it was before the call.
\<close>

theorem apply_masks_keeps_input:
  assumes "img < length h"
  shows "\<exists>h' result. apply_masks gauss m h img regions mask_type = Inr (h', result)
           \<and> im_width (h' ! result) = im_width (h ! img)
           \<and> im_height (h' ! result) = im_height (h ! img)
           \<and> im_mode (h' ! result) = im_mode (h ! img)
           \<and> result \<noteq> img
           \<and> h' ! img = h ! img
           \<and> (\<forall>i<length h. h' ! i = h ! i)"
proof -
  from apply_masks_frame[OF assms, of gauss m regions mask_type] obtain h' where
    h': "apply_masks gauss m h img regions mask_type = Inr (h', length h)"
        "\<forall>i<length h. h' ! i = h ! i"
        "im_width (h' ! length h) = im_width (h ! img)"
        "im_height (h' ! length h) = im_height (h ! img)"
        "im_mode (h' ! length h) = im_mode (h ! img)"
    by blast
  moreover have "length h \<noteq> img" using assms by simp
  moreover have "h' ! img = h ! img" using h'(2) assms by simp
  ultimately show ?thesis by blast
qed

text \<open>The theorem at the white raster, one region and the mask type \<^verbatim>\<open>"blur"\<close>.\<close>

theorem apply_masks_keeps_input_witness:
  "\<exists>h' result. apply_masks no_blur default_masker [white_image] 0 [Region 2 1 4 3] ''blur'' =
        Inr (h', result)
     \<and> im_width (h' ! result) = 8 \<and> im_height (h' ! result) = 6
     \<and> im_mode (h' ! result) = ModeRGB \<and> result \<noteq> 0 \<and> h' ! 0 = white_image"
proof -
  have len: "0 < length [white_image]" by simp
  from apply_masks_keeps_input[OF len, of no_blur default_masker "[Region 2 1 4 3]" "''blur''"]
  show ?thesis by (simp add: white_image_def)
qed

section \<open>Properties of \<^verbatim>\<open>redact\<close> and \<^verbatim>\<open>preview_page\<close>\<close>

lemma apply_masks_img_total:
  "\<exists>img'. apply_masks_img gauss m img regions mask_type = Inr img'
      \<and> im_width img' = im_width img \<and> im_height img' = im_height img \<and> im_mode img' = im_mode img"
proof -
  have len: "0 < length [img]" by simp
  from apply_masks_frame[OF len, of gauss m regions mask_type]
  show ?thesis by (auto simp: apply_masks_img_def)
qed

lemma apply_masks_img_nil: "apply_masks_img gauss m img [] mask_type = Inr img"
  by (simp add: apply_masks_img_def apply_masks_def copy_def)

lemma redact_loop_pages:
  "\<exists>imgs. redact_loop gauss m pdf page_regions mask_type idxs acc = Inr (acc @ imgs)
      \<and> length imgs = length idxs
      \<and> (\<forall>k<length idxs.
            (page_regions (int (idxs ! k) + 1) = None \<longrightarrow>
               imgs ! k = render (pdf ! (idxs ! k)) (render_scale m))
            \<and> (\<forall>regions. page_regions (int (idxs ! k) + 1) = Some regions \<longrightarrow>
                 apply_masks_img gauss m (render (pdf ! (idxs ! k)) (render_scale m)) regions mask_type
                   = Inr (imgs ! k)))"
proof (induction idxs arbitrary: acc)
  case Nil
  then show ?case by simp
next
  case (Cons page_idx rest)
  let ?img = "render (pdf ! page_idx) (render_scale m)"
  obtain img' where img':
    "page_regions (int page_idx + 1) = None \<longrightarrow> img' = ?img"
    "\<forall>regions. page_regions (int page_idx + 1) = Some regions \<longrightarrow>
        apply_masks_img gauss m ?img regions mask_type = Inr img'"
    using apply_masks_img_total[of gauss m ?img _ mask_type]
    by (cases "page_regions (int page_idx + 1)") auto
  have step: "redact_loop gauss m pdf page_regions mask_type (page_idx # rest) acc =
              redact_loop gauss m pdf page_regions mask_type rest (acc @ [img'])"
    using img' by (auto simp: Let_def split: option.splits)
  from Cons.IH[of "acc @ [img']"] obtain imgs where imgs:
    "redact_loop gauss m pdf page_regions mask_type rest (acc @ [img']) = Inr ((acc @ [img']) @ imgs)"
    "length imgs = length rest"
    "\<forall>k<length rest.
            (page_regions (int (rest ! k) + 1) = None \<longrightarrow>
               imgs ! k = render (pdf ! (rest ! k)) (render_scale m))
            \<and> (\<forall>regions. page_regions (int (rest ! k) + 1) = Some regions \<longrightarrow>
                 apply_masks_img gauss m (render (pdf ! (rest ! k)) (render_scale m)) regions mask_type
                   = Inr (imgs ! k))"
    by blast
  have all: "\<forall>k<length (page_idx # rest).
            (page_regions (int ((page_idx # rest) ! k) + 1) = None \<longrightarrow>
               (img' # imgs) ! k = render (pdf ! ((page_idx # rest) ! k)) (render_scale m))
            \<and> (\<forall>regions. page_regions (int ((page_idx # rest) ! k) + 1) = Some regions \<longrightarrow>
                 apply_masks_img gauss m (render (pdf ! ((page_idx # rest) ! k)) (render_scale m)) regions mask_type
                   = Inr ((img' # imgs) ! k))"
  proof (intro allI impI)
    fix k assume "k < length (page_idx # rest)"
    then show "(page_regions (int ((page_idx # rest) ! k) + 1) = None \<longrightarrow>
               (img' # imgs) ! k = render (pdf ! ((page_idx # rest) ! k)) (render_scale m))
            \<and> (\<forall>regions. page_regions (int ((page_idx # rest) ! k) + 1) = Some regions \<longrightarrow>
                 apply_masks_img gauss m (render (pdf ! ((page_idx # rest) ! k)) (render_scale m)) regions mask_type
                   = Inr ((img' # imgs) ! k))"
      using img' imgs(3) by (cases k) auto
  qed
  show ?case
    apply (rule exI[of _ "img' # imgs"])
    using step imgs(1,2) all by simp
qed

lemma redact_pages_spec:
  "\<exists>page_images. redact_pages gauss m pdf page_regions mask_type = Inr page_images
      \<and> length page_images = length pdf
      \<and> (\<forall>k<length pdf.
            (page_regions (int k + 1) = None \<longrightarrow>
               page_images ! k = render (pdf ! k) (render_scale m))
            \<and> (\<forall>regions. page_regions (int k + 1) = Some regions \<longrightarrow>
                 apply_masks_img gauss m (render (pdf ! k) (render_scale m)) regions mask_type
                   = Inr (page_images ! k)))"
proof -
  from redact_loop_pages[of gauss m pdf page_regions mask_type "[0..<length pdf]" "[]"]
  show ?thesis by (auto simp: redact_pages_def)
qed

lemma images_to_pdf_nonempty:
  "images \<noteq> [] \<Longrightarrow>
     images_to_pdf images =
       Inr (map (\<lambda>img. if im_mode img \<noteq> ModeRGB then convert_rgb img else img) images)"
  by (cases images) (auto simp: images_to_pdf_def Let_def)

text \<open>
  Claim C2. Let the path hold a document. On a document without pages \<open>redact\<close> raises
  the error of \<^verbatim>\<open>_images_to_pdf\<close>, "No images to convert". Otherwise the loop returns
  one raster for each page, in page order: the element \<open>k\<close> is the rendering of page
  \<open>k + 1\<close> when \<open>k + 1\<close> is no key of \<open>page_regions\<close>, and the masking of that
  rendering with the regions of \<open>k + 1\<close> when it is a key; the document written is this
  sequence, each raster converted to RGB where it is not RGB.
\<close>

theorem redact_every_page:
  assumes "fs pdf_path = Inr pdf"
  shows "(pdf = [] \<longrightarrow> redact gauss m fs pdf_path page_regions mask_type = Inl NoImagesToConvert)
       \<and> (pdf \<noteq> [] \<longrightarrow>
            (\<exists>page_images.
                redact_pages gauss m pdf page_regions mask_type = Inr page_images
              \<and> length page_images = length pdf
              \<and> (\<forall>k<length pdf.
                    (page_regions (int k + 1) = None \<longrightarrow>
                       page_images ! k = render (pdf ! k) (render_scale m))
                    \<and> (\<forall>regions. page_regions (int k + 1) = Some regions \<longrightarrow>
                         apply_masks_img gauss m (render (pdf ! k) (render_scale m)) regions mask_type
                           = Inr (page_images ! k)))
              \<and> redact gauss m fs pdf_path page_regions mask_type =
                  Inr (map (\<lambda>img. if im_mode img \<noteq> ModeRGB then convert_rgb img else img)
                         page_images)))"
proof (intro conjI impI)
  assume "pdf = []"
  then show "redact gauss m fs pdf_path page_regions mask_type = Inl NoImagesToConvert"
    using assms by (simp add: redact_def redact_pages_def images_to_pdf_def)
next
  assume ne: "pdf \<noteq> []"
  from redact_pages_spec[of gauss m pdf page_regions mask_type] obtain page_images where
    pi: "redact_pages gauss m pdf page_regions mask_type = Inr page_images"
        "length page_images = length pdf"
        "\<forall>k<length pdf.
            (page_regions (int k + 1) = None \<longrightarrow>
               page_images ! k = render (pdf ! k) (render_scale m))
            \<and> (\<forall>regions. page_regions (int k + 1) = Some regions \<longrightarrow>
                 apply_masks_img gauss m (render (pdf ! k) (render_scale m)) regions mask_type
                   = Inr (page_images ! k))"
    by blast
  have "page_images \<noteq> []" using pi(2) ne by auto
  then have "redact gauss m fs pdf_path page_regions mask_type =
                  Inr (map (\<lambda>img. if im_mode img \<noteq> ModeRGB then convert_rgb img else img)
                         page_images)"
    using assms pi(1) by (simp add: redact_def images_to_pdf_nonempty)
  with pi show "\<exists>page_images.
                redact_pages gauss m pdf page_regions mask_type = Inr page_images
              \<and> length page_images = length pdf
              \<and> (\<forall>k<length pdf.
                    (page_regions (int k + 1) = None \<longrightarrow>
                       page_images ! k = render (pdf ! k) (render_scale m))
                    \<and> (\<forall>regions. page_regions (int k + 1) = Some regions \<longrightarrow>
                         apply_masks_img gauss m (render (pdf ! k) (render_scale m)) regions mask_type
                           = Inr (page_images ! k)))
              \<and> redact gauss m fs pdf_path page_regions mask_type =
                  Inr (map (\<lambda>img. if im_mode img \<noteq> ModeRGB then convert_rgb img else img)
                         page_images)"
    by blast
qed

text \<open>
  The theorem at an empty document, and at a document of two pages with regions for the
  second page only.
\<close>

theorem redact_every_page_witness:
  "redact no_blur default_masker (\<lambda>pdf_path. Inr []) ''empty.pdf'' [1 \<mapsto> [Region 2 1 4 3]] ''black''
     = Inl NoImagesToConvert
   \<and> (\<exists>page_images masked.
         redact_pages no_blur default_masker two_pages [2 \<mapsto> [Region 2 1 4 3]] ''black''
           = Inr page_images
       \<and> length page_images = 2
       \<and> page_images ! 0 = white_image
       \<and> apply_masks_img no_blur default_masker (render (two_pages ! 1) 2) [Region 2 1 4 3] ''black''
           = Inr masked
       \<and> page_images ! 1 = masked
       \<and> redact no_blur default_masker (\<lambda>pdf_path. Inr two_pages) ''two.pdf''
           [2 \<mapsto> [Region 2 1 4 3]] ''black'' = Inr [white_image, convert_rgb masked])"
proof -
  have e: "(\<lambda>pdf_path. Inr []) ''empty.pdf'' = (Inr [] :: error + document)" by simp
  from redact_every_page[where fs="\<lambda>pdf_path. Inr []" and pdf_path="''empty.pdf''" and pdf="[]"
         and gauss=no_blur and m=default_masker and page_regions="[1 \<mapsto> [Region 2 1 4 3]]"
         and mask_type="''black''"] e
  have a: "redact no_blur default_masker (\<lambda>pdf_path. Inr []) ''empty.pdf'' [1 \<mapsto> [Region 2 1 4 3]] ''black''
     = Inl NoImagesToConvert"
    by simp
  have t: "(\<lambda>pdf_path. Inr two_pages) ''two.pdf'' = (Inr two_pages :: error + document)" by simp
  have ne: "two_pages \<noteq> []" by (simp add: two_pages_def)
  from redact_every_page[where fs="\<lambda>pdf_path. Inr two_pages" and pdf_path="''two.pdf''"
         and pdf=two_pages and gauss=no_blur and m=default_masker
         and page_regions="[2 \<mapsto> [Region 2 1 4 3]]" and mask_type="''black''"] t ne
  obtain page_images where
    pi: "redact_pages no_blur default_masker two_pages [2 \<mapsto> [Region 2 1 4 3]] ''black''
           = Inr page_images"
        "length page_images = length two_pages"
        "\<forall>k<length two_pages.
            ([2 \<mapsto> [Region 2 1 4 3]] (int k + 1) = None \<longrightarrow>
               page_images ! k = render (two_pages ! k) (render_scale default_masker))
            \<and> (\<forall>regions. [2 \<mapsto> [Region 2 1 4 3]] (int k + 1) = Some regions \<longrightarrow>
                 apply_masks_img no_blur default_masker
                   (render (two_pages ! k) (render_scale default_masker)) regions ''black''
                   = Inr (page_images ! k))"
        "redact no_blur default_masker (\<lambda>pdf_path. Inr two_pages) ''two.pdf''
           [2 \<mapsto> [Region 2 1 4 3]] ''black'' =
           Inr (map (\<lambda>img. if im_mode img \<noteq> ModeRGB then convert_rgb img else img) page_images)"
    by blast
  have len: "length page_images = 2" using pi(2) by (simp add: two_pages_def)
  then obtain i0 i1 where l: "page_images = [i0, i1]"
    by (cases page_images; cases "tl page_images") auto
  from pi(3)[rule_format, of 0] have p0: "page_images ! 0 = white_image"
    by (simp add: two_pages_def render_def)
  from pi(3)[rule_format, of 1] have p1:
    "apply_masks_img no_blur default_masker (render (two_pages ! 1) 2) [Region 2 1 4 3] ''black''
       = Inr (page_images ! 1)"
    by (simp add: two_pages_def render_def default_masker_def)
  from apply_masks_img_total[of no_blur default_masker "render (two_pages ! 1) 2" "[Region 2 1 4 3]" "''black''"] p1
  have m1: "im_mode (page_images ! 1) = ModeL" by (simp add: two_pages_def render_def)
  have "redact no_blur default_masker (\<lambda>pdf_path. Inr two_pages) ''two.pdf''
           [2 \<mapsto> [Region 2 1 4 3]] ''black'' = Inr [white_image, convert_rgb (page_images ! 1)]"
    using pi(4) l p0 m1 by (simp add: white_image_def)
  with a pi(1) len p0 p1 show ?thesis by blast
qed

lemma redact_loop_cong:
  assumes "\<forall>idx\<in>set idxs. page_regions (int idx + 1) = page_regions' (int idx + 1)"
  shows "redact_loop gauss m pdf page_regions mask_type idxs acc =
         redact_loop gauss m pdf page_regions' mask_type idxs acc"
  using assms
proof (induction idxs arbitrary: acc)
  case Nil
  then show ?case by simp
next
  case (Cons page_idx rest)
  then show ?case by (simp add: Let_def split: option.splits sum.splits)
qed

text \<open>
  Claim C8. Let the path hold a document. \<open>redact\<close> returns what it returns on the
  dictionary restricted to the keys from 1 to the page count, and on a document with
  at least one page it raises nothing, whatever the keys.
\<close>

theorem redact_ignores_other_keys:
  assumes "fs pdf_path = Inr pdf"
  shows "redact gauss m fs pdf_path page_regions mask_type =
           redact gauss m fs pdf_path (page_regions |` {1..int (length pdf)}) mask_type
       \<and> (pdf \<noteq> [] \<longrightarrow> (\<exists>out. redact gauss m fs pdf_path page_regions mask_type = Inr out))"
proof (intro conjI impI)
  have "\<forall>idx\<in>set [0..<length pdf].
          page_regions (int idx + 1) = (page_regions |` {1..int (length pdf)}) (int idx + 1)"
    by (auto simp: restrict_map_def)
  from redact_loop_cong[OF this]
  show "redact gauss m fs pdf_path page_regions mask_type =
           redact gauss m fs pdf_path (page_regions |` {1..int (length pdf)}) mask_type"
    using assms by (simp add: redact_def redact_pages_def)
next
  assume ne: "pdf \<noteq> []"
  from redact_pages_spec[of gauss m pdf page_regions mask_type] obtain page_images where
    pi: "redact_pages gauss m pdf page_regions mask_type = Inr page_images"
        "length page_images = length pdf"
    by blast
  have "page_images \<noteq> []" using pi(2) ne by auto
  then show "\<exists>out. redact gauss m fs pdf_path page_regions mask_type = Inr out"
    using assms pi(1) by (simp add: redact_def images_to_pdf_nonempty)
qed

text \<open>The theorem at the one-page document, with regions for the pages 1, 0 and 7.\<close>

theorem redact_ignores_other_keys_witness:
  "redact no_blur default_masker sample_fs ''doc.pdf''
       [1 \<mapsto> [Region 2 1 4 3], 0 \<mapsto> [Region 0 0 9 9], 7 \<mapsto> [Region 1 1 1 1]] ''black''
     = redact no_blur default_masker sample_fs ''doc.pdf'' [1 \<mapsto> [Region 2 1 4 3]] ''black''
   \<and> (\<exists>out. redact no_blur default_masker sample_fs ''doc.pdf''
       [1 \<mapsto> [Region 2 1 4 3], 0 \<mapsto> [Region 0 0 9 9], 7 \<mapsto> [Region 1 1 1 1]] ''black'' = Inr out)"
proof -
  have 1: "sample_fs ''doc.pdf'' = Inr sample_doc" by (simp add: sample_fs_def)
  have r: "[1 \<mapsto> [Region 2 1 4 3], 0 \<mapsto> [Region 0 0 9 9], 7 \<mapsto> [Region 1 1 1 1]]
             |` {1..int (length sample_doc)} = [1 \<mapsto> [Region 2 1 4 3]]"
    by (rule ext) (simp add: restrict_map_def sample_doc_def)
  have ne: "sample_doc \<noteq> []" by (simp add: sample_doc_def)
  from redact_ignores_other_keys[where fs=sample_fs and pdf_path="''doc.pdf''" and pdf=sample_doc
         and gauss=no_blur and m=default_masker and mask_type="''black''" and page_regions=
         "[1 \<mapsto> [Region 2 1 4 3], 0 \<mapsto> [Region 0 0 9 9], 7 \<mapsto> [Region 1 1 1 1]]"] 1
  show ?thesis unfolding r using ne by blast
qed

lemma bit_length_bound: "n < 2 ^ k \<Longrightarrow> bit_length n \<le> k"
proof (induction k arbitrary: n)
  case 0
  then show ?case by (subst bit_length.simps) simp
next
  case (Suc k)
  have "n div 2 < 2 ^ k" using Suc.prems by auto
  from Suc.IH[OF this] show ?case by (subst bit_length.simps) simp
qed

lemma bit_length_eq: "2 ^ k \<le> n \<Longrightarrow> n < 2 ^ Suc k \<Longrightarrow> bit_length n = Suc k"
proof (induction k arbitrary: n)
  case 0
  then have "n = 1" by simp
  then show ?case by (simp add: bit_length.simps[of "Suc 0"] bit_length.simps[of 0])
next
  case (Suc k)
  have "2 ^ k \<le> n div 2" "n div 2 < 2 ^ Suc k" using Suc.prems by auto
  from Suc.IH[OF this] have "bit_length (n div 2) = Suc k" .
  moreover have "n \<noteq> 0" using Suc.prems by auto
  ultimately show ?case by (subst bit_length.simps) simp
qed

lemma bit_length_54:
  "9007199254740992 \<le> n \<Longrightarrow> n < 18014398509481984 \<Longrightarrow> bit_length n = 54"
  using bit_length_eq[of 53 n] by simp

lemma float_of_int_2_53:
  "float_of_int 9007199254740992 = Inr 9007199254740992"
  "float_of_int (- 9007199254740992) = Inr (- 9007199254740992)"
  by (simp_all add: float_of_int_def bit_length_54 Let_def)

lemma float_of_int_wide:
  "float_of_int (- 9007199254740993) = Inr (- 9007199254740992)"
  "float_of_int 9007199254740998 = Inr 9007199254740998"
  by (simp_all add: float_of_int_def bit_length_54 Let_def)


lemma float_of_int_exact:
  assumes "\<bar>v\<bar> \<le> 2 ^ 53"
  shows "float_of_int v = Inr v"
proof (cases "\<bar>v\<bar> < 2 ^ 53")
  case True
  then have "nat \<bar>v\<bar> < 2 ^ 53" by (simp add: nat_less_iff)
  from bit_length_bound[OF this] show ?thesis
    by (simp add: float_of_int_def Let_def)
next
  case False
  with assms have "\<bar>v\<bar> = 9007199254740992" by simp
  then have "v = 9007199254740992 \<or> v = - 9007199254740992" by arith
  then show ?thesis using float_of_int_2_53 by auto
qed

lemma scale_region_exact: "exact_coords r \<Longrightarrow> scale_region r = Inr r"
  by (simp add: scale_region_def exact_coords_def float_of_int_exact)

lemma scale_regions_exact: "\<forall>r\<in>set rs. exact_coords r \<Longrightarrow> scale_regions rs = Inr rs"
  by (induction rs) (simp_all add: scale_region_exact)

lemma wide_region_scaled:
  "scale_regions [wide_region] = Inr [Region (- 9007199254740992) 0 9007199254740998 3]"
proof -
  have "float_of_int 0 = Inr 0" "float_of_int 3 = Inr 3"
    by (simp_all add: float_of_int_exact)
  then show ?thesis
    by (simp add: wide_region_def scale_region_def float_of_int_wide)
qed

lemma apply_masks_img_fill:
  assumes "mask_type \<noteq> ''blur''"
      and "apply_masks_img gauss m img regions mask_type = Inr img'"
  shows "im_pixels img' p =
           (if \<exists>region\<in>set regions. \<not> degenerate img region
                  \<and> inside_incl (clamp_box img region) p \<and> in_image img p
            then getcolor (if mask_type = ''black'' then ''black'' else ''white'') (im_mode img)
            else im_pixels img p)"
proof -
  have len: "0 < length [img]" by simp
  from assms(2) obtain h' result where
    r: "apply_masks gauss m [img] 0 regions mask_type = Inr (h', result)" "img' = h' ! result"
    by (auto simp: apply_masks_img_def split: sum.splits)
  have "[img] ! 0 = img" by simp
  with apply_masks_fill[OF len assms(1) r(1), of p] show ?thesis unfolding r(2) by metis
qed

text \<open>
  Claim C3, as stated, fails: the preview converts every coordinate to a double and
  back. The region \<open>wide_region\<close> has the box from \<open>- (2 ^ 53 + 1)\<close> to 5 in \<open>x\<close>;
  its \<open>x\<close> is rounded to \<open>- 2 ^ 53\<close>, so the preview masks the box up to 6, and the
  pixel \<open>(6, 0)\<close> is black in the preview and white in the raster of \<open>redact\<close>.
\<close>

theorem preview_page_rescales_counterexample:
  "\<exists>img page_images.
      preview_page no_blur default_masker sample_fs ''doc.pdf'' 1 (Some [wide_region]) ''black''
        = Inr img
    \<and> redact_pages no_blur default_masker sample_doc [1 \<mapsto> [wide_region]] ''black''
        = Inr page_images
    \<and> im_pixels img (6, 0) = [0, 0, 0]
    \<and> im_pixels (page_images ! 0) (6, 0) = [255, 255, 255]"
proof -
  let ?scaled = "Region (- 9007199254740992) 0 9007199254740998 3"
  have nb: "''black'' \<noteq> ''blur''" by simp
  obtain img where img:
    "apply_masks_img no_blur default_masker white_image [?scaled] ''black'' = Inr img"
    using apply_masks_img_total by blast
  have pv: "preview_page no_blur default_masker sample_fs ''doc.pdf'' 1 (Some [wide_region]) ''black''
        = Inr img"
    using img
    by (simp add: preview_page_def sample_fs_def sample_doc_def render_def wide_region_scaled
          del: scale_regions.simps)
  have p1: "im_pixels img (6, 0) = [0, 0, 0]"
    unfolding apply_masks_img_fill[OF nb img, of "(6, 0)"]
    by (simp add: degenerate_def clamp_box_def box_def inside_incl_def in_image_def
          white_image_def getcolor_def)
  obtain img2 where img2:
    "apply_masks_img no_blur default_masker white_image [wide_region] ''black'' = Inr img2"
    using apply_masks_img_total by blast
  have rp: "redact_pages no_blur default_masker sample_doc [1 \<mapsto> [wide_region]] ''black'' = Inr [img2]"
    using img2 by (simp add: redact_pages_def sample_doc_def render_def)
  have p2: "im_pixels img2 (6, 0) = [255, 255, 255]"
    unfolding apply_masks_img_fill[OF nb img2, of "(6, 0)"]
    by (simp add: degenerate_def clamp_box_def box_def inside_incl_def in_image_def
          white_image_def getcolor_def wide_region_def)
  from pv rp p1 p2 show ?thesis by simp
qed

text \<open>
  Claim C3, amended. Let the path hold a document, \<open>n\<close> be one of its page numbers and
  every coordinate of the regions be of magnitude at most \<open>2 ^ 53\<close>. Then the preview
  of page \<open>n\<close> at the scale 1.0 is the raster \<open>redact\<close> computes for page \<open>n\<close> from the
  dictionary \<open>{n: regions}\<close>, before the conversion to RGB.
\<close>

theorem preview_page_matches_redact:
  assumes "fs pdf_path = Inr pdf" and "1 \<le> n" and "n \<le> int (length pdf)"
      and "\<forall>r\<in>set regions. exact_coords r"
  shows "\<exists>img page_images.
            preview_page gauss m fs pdf_path n (Some regions) mask_type = Inr img
          \<and> redact_pages gauss m pdf [n \<mapsto> regions] mask_type = Inr page_images
          \<and> nat (n - 1) < length page_images
          \<and> page_images ! nat (n - 1) = img"
proof -
  let ?k = "nat (n - 1)"
  let ?img = "render (pdf ! ?k) (render_scale m)"
  have k: "?k < length pdf" "int ?k + 1 = n" using assms(2,3) by auto
  from redact_pages_spec[of gauss m pdf "[n \<mapsto> regions]" mask_type] obtain page_images where
    pi: "redact_pages gauss m pdf [n \<mapsto> regions] mask_type = Inr page_images"
        "length page_images = length pdf"
        "\<forall>k<length pdf.
            ([n \<mapsto> regions] (int k + 1) = None \<longrightarrow>
               page_images ! k = render (pdf ! k) (render_scale m))
            \<and> (\<forall>regions'. [n \<mapsto> regions] (int k + 1) = Some regions' \<longrightarrow>
                 apply_masks_img gauss m (render (pdf ! k) (render_scale m)) regions' mask_type
                   = Inr (page_images ! k))"
    by blast
  from pi(3) k have masked: "apply_masks_img gauss m ?img regions mask_type = Inr (page_images ! ?k)"
    by simp
  have "preview_page gauss m fs pdf_path n (Some regions) mask_type = Inr (page_images ! ?k)"
  proof (cases regions)
    case Nil
    with masked have "page_images ! ?k = ?img" by (simp add: apply_masks_img_nil)
    with Nil assms(1-3) show ?thesis by (simp add: preview_page_def)
  next
    case (Cons r rs)
    have "scale_regions (r # rs) = Inr (r # rs)"
      using scale_regions_exact[OF assms(4)] Cons by simp
    with Cons assms(1-3) masked show ?thesis by (simp add: preview_page_def)
  qed
  with pi(1,2) k(1) show ?thesis by simp
qed

text \<open>The theorem at the one-page document and one region.\<close>

theorem preview_page_matches_redact_witness:
  "\<exists>img page_images.
      preview_page no_blur default_masker sample_fs ''doc.pdf'' 1 (Some [Region 2 1 4 3]) ''black''
        = Inr img
    \<and> redact_pages no_blur default_masker sample_doc [1 \<mapsto> [Region 2 1 4 3]] ''black''
        = Inr page_images
    \<and> 0 < length page_images
    \<and> page_images ! 0 = img"
proof -
  have 1: "sample_fs ''doc.pdf'' = Inr sample_doc" by (simp add: sample_fs_def)
  have 2: "(1::int) \<le> 1" by simp
  have 3: "(1::int) \<le> int (length sample_doc)" by (simp add: sample_doc_def)
  have 4: "\<forall>r\<in>set [Region 2 1 4 3]. exact_coords r" by (simp add: exact_coords_def)
  from preview_page_matches_redact[where fs=sample_fs and pdf_path="''doc.pdf''" and pdf=sample_doc
         and n=1 and regions="[Region 2 1 4 3]" and gauss=no_blur and m=default_masker
         and mask_type="''black''"] 1 2 3 4
  show ?thesis by simp
qed

section \<open>Properties of the masking session\<close>

text \<open>
  Claim C4. Let a file be given and a base image be loaded. When a corner \<open>(x1, y1)\<close>
  is pending, the click \<open>(x2, y2)\<close> appends the region of the left \<open>min x1 x2\<close>, the top
  \<open>min y1 y2\<close>, the width \<open>|x2 - x1|\<close> and the height \<open>|y2 - y1|\<close> if and only if
  both exceed 5, and clears the pending corner in either case. With no corner pending,
  the clicks \<open>(10, 10)\<close> and \<open>(50, 60)\<close> append exactly \<open>Region 10 10 40 50\<close>, and the
  clicks \<open>(10, 10)\<close> and \<open>(10, 10)\<close> leave the session as it was.
\<close>

theorem handle_image_click_two_clicks:
  assumes "\<not> no_file pdf_file" and "app_base_image a \<noteq> None"
  shows "(app_click_start a = Some (x1, y1) \<longrightarrow>
            handle_image_click a pdf_file mask_type (x2, y2) =
              a\<lparr>app_regions :=
                   (if \<bar>x2 - x1\<bar> > 5 \<and> \<bar>y2 - y1\<bar> > 5
                    then app_regions a @ [Region (min x1 x2) (min y1 y2) \<bar>x2 - x1\<bar> \<bar>y2 - y1\<bar>]
                    else app_regions a),
                 app_click_start := None\<rparr>)
       \<and> (app_click_start a = None \<longrightarrow>
            handle_image_click (handle_image_click a pdf_file mask_type (10, 10))
                pdf_file mask_type (50, 60) =
              a\<lparr>app_regions := app_regions a @ [Region 10 10 40 50]\<rparr>
          \<and> handle_image_click (handle_image_click a pdf_file mask_type (10, 10))
                pdf_file mask_type (10, 10) = a)"
  using assms by (auto simp: handle_image_click_def Let_def)

text \<open>
  The theorem at the sample session, whose corner \<open>(10, 10)\<close> is pending, and at the same
  session with no region and no corner.
\<close>

theorem handle_image_click_two_clicks_witness:
  "handle_image_click sample_app (Some ''doc.pdf'') ''blur'' (50, 60) =
     sample_app\<lparr>app_regions := [Region 10 10 40 50, Region 10 10 40 50], app_click_start := None\<rparr>
   \<and> handle_image_click sample_app (Some ''doc.pdf'') ''blur'' (12, 60) =
     sample_app\<lparr>app_click_start := None\<rparr>
   \<and> app_regions (handle_image_click
         (handle_image_click (sample_app\<lparr>app_regions := [], app_click_start := None\<rparr>)
            (Some ''doc.pdf'') ''blur'' (10, 10))
         (Some ''doc.pdf'') ''blur'' (50, 60)) = [Region 10 10 40 50]
   \<and> app_regions (handle_image_click
         (handle_image_click (sample_app\<lparr>app_regions := [], app_click_start := None\<rparr>)
            (Some ''doc.pdf'') ''blur'' (10, 10))
         (Some ''doc.pdf'') ''blur'' (10, 10)) = []"
proof -
  have f: "\<not> no_file (Some ''doc.pdf'')" by (simp add: no_file_def)
  have b: "app_base_image sample_app \<noteq> None"
          "app_base_image (sample_app\<lparr>app_regions := [], app_click_start := None\<rparr>) \<noteq> None"
    by (simp_all add: sample_app_def)
  from handle_image_click_two_clicks[OF f b(1), of 10 10 "''blur''" 50 60]
  have 1: "handle_image_click sample_app (Some ''doc.pdf'') ''blur'' (50, 60) =
     sample_app\<lparr>app_regions := [Region 10 10 40 50, Region 10 10 40 50], app_click_start := None\<rparr>"
    by (simp add: sample_app_def)
  from handle_image_click_two_clicks[OF f b(1), of 10 10 "''blur''" 12 60]
  have 2: "handle_image_click sample_app (Some ''doc.pdf'') ''blur'' (12, 60) =
     sample_app\<lparr>app_click_start := None\<rparr>"
    by (simp add: sample_app_def)
  from handle_image_click_two_clicks[OF f b(2), of 0 0 "''blur''" 0 0]
  have 3: "app_regions (handle_image_click
         (handle_image_click (sample_app\<lparr>app_regions := [], app_click_start := None\<rparr>)
            (Some ''doc.pdf'') ''blur'' (10, 10))
         (Some ''doc.pdf'') ''blur'' (50, 60)) = [Region 10 10 40 50]"
    and 4: "app_regions (handle_image_click
         (handle_image_click (sample_app\<lparr>app_regions := [], app_click_start := None\<rparr>)
            (Some ''doc.pdf'') ''blur'' (10, 10))
         (Some ''doc.pdf'') ''blur'' (10, 10)) = []"
    by (simp_all add: sample_app_def)
  from 1 2 3 4 show ?thesis by blast
qed

text \<open>
  Claim C6, as stated, fails: \<open>change_mask_page\<close> assigns the page, empties the regions
  and clears the corner before it asks for the preview, and it catches the error of
  \<open>preview_page\<close>. On the one-page document the change to page 5 returns an error
  message, and the session has the page 5, no region and no corner.
\<close>

theorem change_mask_page_invalid_counterexample:
  "preview_page no_blur default_masker sample_fs ''doc.pdf'' 5 None ''blur'' = Inl (PageOutOfRange 5)
   \<and> snd (change_mask_page no_blur sample_fs sample_app (Some ''doc.pdf'') 5)
       = ErrorMessage (PageOutOfRange 5)
   \<and> fst (change_mask_page no_blur sample_fs sample_app (Some ''doc.pdf'') 5) \<noteq> sample_app
   \<and> app_current_page (fst (change_mask_page no_blur sample_fs sample_app (Some ''doc.pdf'') 5)) = 5
   \<and> app_regions (fst (change_mask_page no_blur sample_fs sample_app (Some ''doc.pdf'') 5)) = []
   \<and> app_click_start (fst (change_mask_page no_blur sample_fs sample_app (Some ''doc.pdf'') 5)) = None
   \<and> app_current_page sample_app = 1
   \<and> app_regions sample_app = [Region 10 10 40 50]
   \<and> app_click_start sample_app = Some (10, 10)"
proof -
  have p: "preview_page no_blur default_masker sample_fs ''doc.pdf'' 5 None ''blur'' = Inl (PageOutOfRange 5)"
    by (simp add: preview_page_def sample_fs_def sample_doc_def)
  have c: "change_mask_page no_blur sample_fs sample_app (Some ''doc.pdf'') 5 =
        (sample_app\<lparr>app_current_page := 5, app_regions := [], app_click_start := None\<rparr>,
         ErrorMessage (PageOutOfRange 5))"
  proof -
    have fsd: "sample_fs ''doc.pdf'' = Inr sample_doc" by (simp add: sample_fs_def)
    show ?thesis by (simp add: change_mask_page_def get_page_count_def fsd p Let_def)
  qed
  have ne: "sample_app\<lparr>app_current_page := 5, app_regions := [], app_click_start := None\<rparr> \<noteq> sample_app"
  proof
    assume "sample_app\<lparr>app_current_page := 5, app_regions := [], app_click_start := None\<rparr> = sample_app"
    then have "app_current_page (sample_app\<lparr>app_current_page := 5, app_regions := [], app_click_start := None\<rparr>)
                = app_current_page sample_app" by simp
    then show False by (simp add: sample_app_def)
  qed
  show ?thesis unfolding c using p ne by (simp add: sample_app_def)
qed

text \<open>
  Claim C6, amended. Let the path be non-empty and hold a document, and the page number
  be outside of 1 to the page count. Then \<open>preview_page\<close> raises the out-of-range
  error, and \<open>change_mask_page\<close> raises nothing: it returns the message of that error,
  and the session with the page number requested, no region and no pending corner; the
  base image and the other fields are what they were.
\<close>

theorem change_mask_page_invalid:
  assumes "pdf_path \<noteq> []" and "fs pdf_path = Inr pdf"
      and "page_num < 1 \<or> page_num > int (length pdf)"
  shows "preview_page gauss default_masker fs pdf_path page_num None ''blur''
           = Inl (PageOutOfRange page_num)
       \<and> change_mask_page gauss fs a (Some pdf_path) page_num =
           (a\<lparr>app_current_page := page_num, app_regions := [], app_click_start := None\<rparr>,
            ErrorMessage (PageOutOfRange page_num))"
proof -
  have p: "preview_page gauss default_masker fs pdf_path page_num None ''blur''
           = Inl (PageOutOfRange page_num)"
    using assms by (auto simp: preview_page_def)
  show ?thesis
    using assms(1,2) p by (simp add: change_mask_page_def get_page_count_def)
qed

text \<open>The theorem at the sample session and the page number 0.\<close>

theorem change_mask_page_invalid_witness:
  "preview_page no_blur default_masker sample_fs ''doc.pdf'' 0 None ''blur'' = Inl (PageOutOfRange 0)
   \<and> change_mask_page no_blur sample_fs sample_app (Some ''doc.pdf'') 0 =
       (sample_app\<lparr>app_current_page := 0, app_regions := [], app_click_start := None\<rparr>,
        ErrorMessage (PageOutOfRange 0))"
proof -
  have 1: "''doc.pdf'' \<noteq> []" by simp
  have 2: "sample_fs ''doc.pdf'' = Inr sample_doc" by (simp add: sample_fs_def)
  have 3: "(0::int) < 1 \<or> 0 > int (length sample_doc)" by simp
  from change_mask_page_invalid[where pdf_path="''doc.pdf''" and fs=sample_fs and pdf=sample_doc
         and page_num=0 and gauss=no_blur and a=sample_app] 1 2 3
  show ?thesis by blast
qed


end
